theory Spec2Isabelle
  imports Main "HOL-Library.Sublist"
begin

section \<open>Strings\<close>

text \<open>
  A JavaScript string is represented by the bytes of its UTF-8 encoding, so an ASCII
  character is one \<^typ>\<open>char\<close>.  \<open>String.prototype.includes\<close> is the substring test.
\<close>

fun str_includes :: "string \<Rightarrow> string \<Rightarrow> bool" where
  "str_includes [] t = (t = [])"
| "str_includes (c # s) t = (prefix t (c # s) \<or> str_includes s t)"

text \<open>
  \<open>encodeURIComponent\<close>: every byte outside the unreserved set
  \<open>A-Z a-z 0-9 - _ . ! ~ * ' ( )\<close> is written as \<open>%XX\<close> with upper-case hex digits.
\<close>

definition uriUnescaped :: "char \<Rightarrow> bool" where
  "uriUnescaped c =
     (let n = (of_char c :: nat) in
        (65 \<le> n \<and> n \<le> 90) \<or> (97 \<le> n \<and> n \<le> 122) \<or> (48 \<le> n \<and> n \<le> 57) \<or>
        n \<in> {45, 95, 46, 33, 126, 42, 39, 40, 41})"

definition hexDigit :: "nat \<Rightarrow> char" where
  "hexDigit d = ''0123456789ABCDEF'' ! d"

definition percentEscape :: "char \<Rightarrow> string" where
  "percentEscape c =
     (let n = (of_char c :: nat) in [CHR ''%'', hexDigit (n div 16), hexDigit (n mod 16)])"

definition encodeURIComponent :: "string \<Rightarrow> string" where
  "encodeURIComponent s = concat (map (\<lambda>c. if uriUnescaped c then [c] else percentEscape c) s)"

section \<open>Data model\<close>

datatype role = Owner | Admin | User

text \<open>The type \<open>AuthInfo\<close>: every field is optional.\<close>

record auth_info =
  password :: "string option"
  username :: "string option"
  signature :: "string option"
  timestamp :: "int option"
  role :: "role option"
  tokenId :: "string option"
  refreshToken_field :: "string option"
  refreshExpires :: "int option"

text \<open>
  \<open>TOKEN_CONFIG\<close> is imported from a module outside the sources at hand; its two
  durations (milliseconds) are taken as a parameter.
\<close>

record token_config =
  ACCESS_TOKEN_AGE :: int
  RENEWAL_THRESHOLD :: int

text \<open>
  What the code reads from the browser at one moment: the record that
  \<open>getAuthInfoFromBrowserCookie()\<close> returns, \<open>Date.now()\<close>,
  \<open>window.location.pathname\<close> and \<open>window.location.search\<close>.
  Epoch milliseconds are integers, on which the arithmetic of the code is exact.
\<close>

record browser =
  cookieAuth :: "auth_info option"
  now :: int
  pathname :: string
  search :: string

record request =
  url :: string
  options :: "(string \<times> string) list"

text \<open>A response: its status and the text of its body (\<open>None\<close> when reading it fails).\<close>

record response =
  status :: nat
  body_text :: "string option"

datatype fetch_result = Responded response | NetworkError

text \<open>What the code does to the world outside: calls of the original \<open>fetch\<close>,
  \<open>clearAuthCookie()\<close>, and assignments to \<open>window.location.href\<close>.\<close>

datatype effect = OriginalFetch request | ClearAuthCookie | SetLocationHref string

text \<open>
  A promise made by the immediately-invoked async function of \<open>refreshToken\<close> is
  either suspended at one of its two \<open>await\<close>s or resolved.  It never rejects: the
  \<open>catch\<close> block returns \<open>false\<close>.
\<close>

datatype promise_state = AwaitingRefresh | AwaitingLogout | Resolved bool

text \<open>
  The variables the closures of \<open>TokenRefreshManager\<close> share.  Promises are named by
  their index in \<open>promises\<close>.  \<open>logoutChains\<close> counts the
  \<open>fetch(...).catch(...).finally(...)\<close> chains of \<open>shouldRefreshToken\<close> whose logout
  call has not settled yet.
\<close>

record state =
  isRefreshing :: bool
  refreshPromise :: "nat option"
  promises :: "promise_state list"
  effects :: "effect list"
  logoutChains :: nat

definition emit :: "effect \<Rightarrow> state \<Rightarrow> state" where
  "emit e s = s\<lparr>effects := effects s @ [e]\<rparr>"

definition promise_at :: "state \<Rightarrow> nat \<Rightarrow> promise_state option" where
  "promise_at s p = (if p < length (promises s) then Some (promises s ! p) else None)"

definition post_options :: "(string \<times> string) list" where
  "post_options = [(''method'', ''POST''), (''credentials'', ''include'')]"

definition refresh_request :: request where
  "refresh_request = \<lparr>url = ''/api/auth/refresh'', options = post_options\<rparr>"

definition logout_request :: request where
  "logout_request = \<lparr>url = ''/api/logout'', options = post_options\<rparr>"

definition login_redirect :: "browser \<Rightarrow> string" where
  "login_redirect b = ''/login?redirect='' @ encodeURIComponent (pathname b @ search b)"

section \<open>The interceptor's tests\<close>

definition is_excluded :: "string \<Rightarrow> bool" where
  "is_excluded u =
     (str_includes u ''/api/auth/refresh'' \<or>
      str_includes u ''/api/login'' \<or>
      str_includes u ''/api/logout'' \<or>
      str_includes u ''/api/register'' \<or>
      str_includes u ''/api/auth/oidc'')"

definition has_marker :: "string \<Rightarrow> bool" where
  "has_marker t =
     (str_includes t ''Unauthorized'' \<or>
      str_includes t ''Refresh token expired'' \<or>
      str_includes t ''Access token expired'')"

text \<open>\<open>response.ok\<close>: the status is in the range 200 to 299.\<close>

definition ok :: "response \<Rightarrow> bool" where
  "ok r = (200 \<le> status r \<and> status r \<le> 299)"

text \<open>\<open>!x\<close> for an optional number: true when the field is missing and when it is zero.\<close>

definition falsy :: "int option \<Rightarrow> bool" where
  "falsy x = (case x of None \<Rightarrow> True | Some n \<Rightarrow> n = 0)"

section \<open>The renewal coordinator: \<open>refreshToken\<close>\<close>

text \<open>
  JavaScript runs one task at a time, and a task gives way only at an \<open>await\<close>.  Each
  function below is one such uninterrupted stretch of the code.

  \<open>refreshToken\<close> is the stretch from the call to the first \<open>await\<close>: the test of the
  two variables, and otherwise the flag, the call of \<open>fetch\<close> on the renewal endpoint and
  the new promise.  That \<open>window.fetch\<close> is the interceptor itself, which hands a URL
  holding \<open>/api/auth/refresh\<close> or \<open>/api/logout\<close> straight to the original \<open>fetch\<close>
  (see \<open>fetch_start\<close>).  The result is the promise the caller will await.
\<close>

definition startRefresh :: "state \<Rightarrow> nat \<times> state" where
  "startRefresh s =
     (length (promises s),
      (emit (OriginalFetch refresh_request) (s\<lparr>isRefreshing := True\<rparr>))
        \<lparr>promises := promises s @ [AwaitingRefresh],
         refreshPromise := Some (length (promises s))\<rparr>)"

definition refreshToken :: "state \<Rightarrow> nat \<times> state" where
  "refreshToken s =
     (case refreshPromise s of
        Some p \<Rightarrow> if isRefreshing s then (p, s) else startRefresh s
      | None \<Rightarrow> startRefresh s)"

text \<open>The \<open>finally\<close> block, and the promise resolving with the returned value.\<close>

definition settle :: "nat \<Rightarrow> bool \<Rightarrow> state \<Rightarrow> state" where
  "settle p v s =
     s\<lparr>isRefreshing := False, refreshPromise := None,
       promises := (promises s)[p := Resolved v]\<rparr>"

text \<open>
  The stretch after \<open>await window.fetch('/api/auth/refresh', ...)\<close> of promise \<open>p\<close>, with
  the outcome of the call and the browser as it is then.
\<close>

definition refreshResponded :: "browser \<Rightarrow> nat \<Rightarrow> fetch_result \<Rightarrow> state \<Rightarrow> state" where
  "refreshResponded b p r s =
     (if promise_at s p \<noteq> Some AwaitingRefresh then s
      else case r of
        NetworkError \<Rightarrow> settle p False s
      | Responded resp \<Rightarrow>
          if ok resp then settle p True s
          else if status resp = 401 \<or> status resp = 403 then
            if pathname b = ''/login'' then settle p False s
            else (emit (OriginalFetch logout_request) s)
                   \<lparr>promises := (promises s)[p := AwaitingLogout]\<rparr>
          else settle p False s)"

text \<open>The stretch after \<open>await window.fetch('/api/logout', ...)\<close> of promise \<open>p\<close>.\<close>

definition refreshLogoutResponded :: "browser \<Rightarrow> nat \<Rightarrow> fetch_result \<Rightarrow> state \<Rightarrow> state" where
  "refreshLogoutResponded b p r s =
     (if promise_at s p \<noteq> Some AwaitingLogout then s
      else settle p False
             (emit (SetLocationHref (login_redirect b))
                (case r of NetworkError \<Rightarrow> emit ClearAuthCookie s | Responded _ \<Rightarrow> s)))"

section \<open>The expiry policy: \<open>shouldRefreshToken\<close>\<close>

text \<open>
  A synchronous function.  When the refresh token has expired it calls the logout endpoint
  and leaves a promise chain behind; \<open>expiredLogoutSettled\<close> is what that chain does when
  the call settles: \<open>catch\<close> clears the cookie after a failure, \<open>finally\<close> redirects.
\<close>

definition shouldRefreshToken :: "token_config \<Rightarrow> browser \<Rightarrow> state \<Rightarrow> bool \<times> state" where
  "shouldRefreshToken cfg b s =
     (case cookieAuth b of
        None \<Rightarrow> (False, s)
      | Some authInfo \<Rightarrow>
          if falsy (timestamp authInfo) \<or> falsy (refreshExpires authInfo) then (False, s)
          else (case (timestamp authInfo, refreshExpires authInfo) of
             (Some ts, Some rexp) \<Rightarrow>
               if now b \<ge> rexp then
                 (False, (emit (OriginalFetch logout_request) s)
                           \<lparr>logoutChains := logoutChains s + 1\<rparr>)
               else (ACCESS_TOKEN_AGE cfg - (now b - ts) < RENEWAL_THRESHOLD cfg, s)
           | _ \<Rightarrow> (False, s)))"

definition expiredLogoutSettled :: "browser \<Rightarrow> fetch_result \<Rightarrow> state \<Rightarrow> state" where
  "expiredLogoutSettled b r s =
     (if logoutChains s = 0 then s
      else (emit (SetLocationHref (login_redirect b))
              (case r of NetworkError \<Rightarrow> emit ClearAuthCookie s | Responded _ \<Rightarrow> s))
             \<lparr>logoutChains := logoutChains s - 1\<rparr>)"

section \<open>The request interceptor: the wrapper installed as \<open>window.fetch\<close>\<close>

text \<open>
  Where a call of the wrapper stands: suspended at one of its \<open>await\<close>s (with the local
  variable \<open>response\<close> when it is set), fulfilled with a response, or rejected.
\<close>

datatype fetch_phase =
    AwaitPassthrough
  | AwaitProactive nat
  | AwaitResponse
  | AwaitText response
  | AwaitReactive response nat
  | AwaitReplay response
  | AwaitLogout response
  | Fulfilled response
  | Rejected

text \<open>From the call to the first \<open>await\<close>.\<close>

definition fetch_start :: "token_config \<Rightarrow> browser \<Rightarrow> request \<Rightarrow> state \<Rightarrow> fetch_phase \<times> state" where
  "fetch_start cfg b req s =
     (if is_excluded (url req) then (AwaitPassthrough, emit (OriginalFetch req) s)
      else case shouldRefreshToken cfg b s of
        (True, s1) \<Rightarrow> (case refreshToken s1 of (p, s2) \<Rightarrow> (AwaitProactive p, s2))
      | (False, s1) \<Rightarrow> (AwaitResponse, emit (OriginalFetch req) s1))"

text \<open>\<open>return originalFetch(input, init)\<close>: the wrapper's promise follows the call's.\<close>

definition passthrough_settled :: "fetch_result \<Rightarrow> fetch_phase" where
  "passthrough_settled r = (case r of Responded resp \<Rightarrow> Fulfilled resp | NetworkError \<Rightarrow> Rejected)"

text \<open>After \<open>await refreshToken()\<close> before the request: the outcome is not looked at.\<close>

definition after_proactive :: "request \<Rightarrow> state \<Rightarrow> fetch_phase \<times> state" where
  "after_proactive req s = (AwaitResponse, emit (OriginalFetch req) s)"

text \<open>After \<open>await originalFetch(input, init)\<close>; a failed call is not caught here.\<close>

definition after_response :: "browser \<Rightarrow> fetch_result \<Rightarrow> fetch_phase" where
  "after_response b r =
     (case r of
        NetworkError \<Rightarrow> Rejected
      | Responded resp \<Rightarrow>
          if status resp = 401 then
            if pathname b = ''/login'' then Fulfilled resp else AwaitText resp
          else Fulfilled resp)"

text \<open>After \<open>await clonedResponse.text()\<close>; a failed read is caught and logged.\<close>

definition after_text :: "response \<Rightarrow> state \<Rightarrow> fetch_phase \<times> state" where
  "after_text resp s =
     (case body_text resp of
        None \<Rightarrow> (Fulfilled resp, s)
      | Some t \<Rightarrow>
          if has_marker t then (case refreshToken s of (p, s1) \<Rightarrow> (AwaitReactive resp p, s1))
          else (Fulfilled resp, s))"

text \<open>After \<open>await refreshToken()\<close> in the handling of a 401.\<close>

definition after_reactive :: "request \<Rightarrow> response \<Rightarrow> bool \<Rightarrow> state \<Rightarrow> fetch_phase \<times> state" where
  "after_reactive req resp refreshed s =
     (if refreshed then (AwaitReplay resp, emit (OriginalFetch req) s) else (Fulfilled resp, s))"

text \<open>
  After the replay's \<open>await originalFetch(input, init)\<close>.  The replay stands inside the
  \<open>try\<close> block: when it fails, \<open>response\<close> is still the first response.
\<close>

definition after_replay :: "browser \<Rightarrow> response \<Rightarrow> fetch_result \<Rightarrow> state \<Rightarrow> fetch_phase \<times> state" where
  "after_replay b resp r s =
     (case r of
        NetworkError \<Rightarrow> (Fulfilled resp, s)
      | Responded resp2 \<Rightarrow>
          if status resp2 = 401 then
            if pathname b = ''/login'' then (Fulfilled resp2, s)
            else (AwaitLogout resp2, emit (OriginalFetch logout_request) s)
          else (Fulfilled resp2, s))"

text \<open>After \<open>await originalFetch('/api/logout', ...)\<close>.\<close>

definition after_logout :: "browser \<Rightarrow> response \<Rightarrow> fetch_result \<Rightarrow> state \<Rightarrow> fetch_phase \<times> state" where
  "after_logout b resp2 r s =
     (Fulfilled resp2,
      emit (SetLocationHref (login_redirect b))
        (case r of NetworkError \<Rightarrow> emit ClearAuthCookie s | Responded _ \<Rightarrow> s))"

section \<open>Runs\<close>

text \<open>What a task awaiting promise \<open>p\<close> observes: nothing yet, or the resolved value.\<close>

definition outcome :: "state \<Rightarrow> nat \<Rightarrow> bool option" where
  "outcome s p = (case promise_at s p of Some (Resolved v) \<Rightarrow> Some v | _ \<Rightarrow> None)"

text \<open>The effects issued between an earlier state and a later one, and how often one occurs.\<close>

definition issued :: "state \<Rightarrow> state \<Rightarrow> effect list" where
  "issued s s' = drop (length (effects s)) (effects s')"

definition count_effect :: "effect \<Rightarrow> effect list \<Rightarrow> nat" where
  "count_effect e xs = length (filter (\<lambda>x. x = e) xs)"

text \<open>
  The coordinator under interleaving.  Between two stretches of one task any other task
  may run, so a run of the coordinator is a sequence of events in any order: a caller
  calls \<open>refreshToken\<close>, the renewal call of a promise settles, its logout call settles.
  \<open>run_events\<close> returns the promises handed to the callers, in the order of the calls.
\<close>

datatype event =
    CallRefreshToken
  | RefreshResponds browser nat fetch_result
  | LogoutResponds browser nat fetch_result

fun coordinator_step :: "event \<Rightarrow> state \<Rightarrow> nat option \<times> state" where
  "coordinator_step CallRefreshToken s = (case refreshToken s of (p, s') \<Rightarrow> (Some p, s'))"
| "coordinator_step (RefreshResponds b p r) s = (None, refreshResponded b p r s)"
| "coordinator_step (LogoutResponds b p r) s = (None, refreshLogoutResponded b p r s)"

fun run_events :: "event list \<Rightarrow> state \<Rightarrow> nat list \<times> state" where
  "run_events [] s = ([], s)"
| "run_events (e # es) s =
     (case coordinator_step e s of
        (h, s1) \<Rightarrow>
          (case run_events es s1 of
             (hs, s2) \<Rightarrow> ((case h of None \<Rightarrow> hs | Some p \<Rightarrow> p # hs), s2)))"

text \<open>A renewal is pending (the code's own test) after every event of the run.\<close>

fun pending_throughout :: "event list \<Rightarrow> state \<Rightarrow> bool" where
  "pending_throughout [] s = True"
| "pending_throughout (e # es) s =
     (case coordinator_step e s of
        (h, s1) \<Rightarrow> isRefreshing s1 \<and> refreshPromise s1 \<noteq> None \<and> pending_throughout es s1)"

text \<open>
  One call of the wrapper, run to its end with no other task in between.  The environment
  gives what the code cannot decide: the outcome of each network call and the browser at
  each stretch.  Awaiting \<open>refreshToken()\<close> runs the awaited promise to its resolution.
\<close>

record refresh_env =
  refresh_result :: fetch_result
  refresh_browser :: browser
  refresh_logout_result :: fetch_result
  refresh_logout_browser :: browser

definition await_refresh :: "refresh_env \<Rightarrow> nat \<Rightarrow> state \<Rightarrow> bool option \<times> state" where
  "await_refresh e p s =
     (let s1 = refreshResponded (refresh_browser e) p (refresh_result e) s;
          s2 = refreshLogoutResponded (refresh_logout_browser e) p (refresh_logout_result e) s1
      in (outcome s2 p, s2))"

record run_env =
  start_browser :: browser
  proactive_env :: refresh_env
  first_result :: fetch_result
  response_browser :: browser
  reactive_env :: refresh_env
  replay_result :: fetch_result
  replay_browser :: browser
  logout_result :: fetch_result
  logout_browser :: browser

text \<open>Resuming the wrapper where it is suspended; a promise never resolved leaves it there.\<close>

definition fetch_step :: "run_env \<Rightarrow> request \<Rightarrow> fetch_phase \<times> state \<Rightarrow> fetch_phase \<times> state" where
  "fetch_step env req c =
     (case c of (ph, s) \<Rightarrow>
        (case ph of
           AwaitPassthrough \<Rightarrow> (passthrough_settled (first_result env), s)
         | AwaitProactive p \<Rightarrow>
             (case await_refresh (proactive_env env) p s of
                (None, s1) \<Rightarrow> (AwaitProactive p, s1)
              | (Some v, s1) \<Rightarrow> after_proactive req s1)
         | AwaitResponse \<Rightarrow> (after_response (response_browser env) (first_result env), s)
         | AwaitText resp \<Rightarrow> after_text resp s
         | AwaitReactive resp p \<Rightarrow>
             (case await_refresh (reactive_env env) p s of
                (None, s1) \<Rightarrow> (AwaitReactive resp p, s1)
              | (Some v, s1) \<Rightarrow> after_reactive req resp v s1)
         | AwaitReplay resp \<Rightarrow> after_replay (replay_browser env) resp (replay_result env) s
         | AwaitLogout resp2 \<Rightarrow> after_logout (logout_browser env) resp2 (logout_result env) s
         | Fulfilled resp \<Rightarrow> (Fulfilled resp, s)
         | Rejected \<Rightarrow> (Rejected, s)))"

text \<open>The longest path through the wrapper has seven \<open>await\<close>s.\<close>

definition wrapped_fetch :: "token_config \<Rightarrow> run_env \<Rightarrow> request \<Rightarrow> state \<Rightarrow> fetch_phase \<times> state" where
  "wrapped_fetch cfg env req s =
     (fetch_step env req ^^ 7) (fetch_start cfg (start_browser env) req s)"

text \<open>The state of a call once the request itself has been handed to the original \<open>fetch\<close>.\<close>

definition request_sent :: "token_config \<Rightarrow> run_env \<Rightarrow> request \<Rightarrow> state \<Rightarrow> fetch_phase \<times> state" where
  "request_sent cfg env req s =
     (case fetch_start cfg (start_browser env) req s of
        (AwaitProactive p, s1) \<Rightarrow> fetch_step env req (AwaitProactive p, s1)
      | c \<Rightarrow> c)"

text \<open>
  A promise named by \<open>refreshPromise\<close> exists.  This holds when the component mounts
  and every stretch of the code keeps it.
\<close>

definition wf_state :: "state \<Rightarrow> bool" where
  "wf_state s = (case refreshPromise s of None \<Rightarrow> True | Some p \<Rightarrow> p < length (promises s))"

text \<open>
  How often the request can have been handed to the original \<open>fetch\<close> when a call of the
  wrapper stands at a phase.
\<close>

fun sends_by_phase :: "fetch_phase \<Rightarrow> nat" where
  "sends_by_phase (AwaitProactive p) = 0"
| "sends_by_phase AwaitPassthrough = 1"
| "sends_by_phase AwaitResponse = 1"
| "sends_by_phase (AwaitText resp) = 1"
| "sends_by_phase (AwaitReactive resp p) = 1"
| "sends_by_phase (AwaitReplay resp) = 2"
| "sends_by_phase (AwaitLogout resp) = 2"
| "sends_by_phase (Fulfilled resp) = 2"
| "sends_by_phase Rejected = 2"

text \<open>The renewal that the handling of a 401 awaits, once the request has been sent.\<close>

definition renewal_after_401 :: "token_config \<Rightarrow> run_env \<Rightarrow> request \<Rightarrow> state \<Rightarrow> bool option \<times> state" where
  "renewal_after_401 cfg env req s =
     (case refreshToken (snd (request_sent cfg env req s)) of
        (p, s2) \<Rightarrow> await_refresh (reactive_env env) p s2)"

section \<open>The credential reader\<close>

text \<open>
  \<open>decodeURIComponent\<close>, after the \<open>Decode\<close> operation of ECMAScript; \<open>None\<close> stands
  for the \<open>URIError\<close> it throws.  A \<open>%\<close> must be followed by two hex digits.  An escaped
  byte below 128 is that character; an escaped byte from 128 on must start a run of
  escapes that together are the UTF-8 encoding of one code point.
\<close>

definition hexValue :: "char \<Rightarrow> nat option" where
  "hexValue c =
     (let n = (of_char c :: nat) in
        if 48 \<le> n \<and> n \<le> 57 then Some (n - 48)
        else if 65 \<le> n \<and> n \<le> 70 then Some (n - 55)
        else if 97 \<le> n \<and> n \<le> 102 then Some (n - 87)
        else None)"

datatype uri_token = Literal char | Escape nat

fun uri_tokens :: "string \<Rightarrow> uri_token list option" where
  "uri_tokens [] = Some []"
| "uri_tokens (c # cs) =
     (if c = CHR ''%'' then
        (case cs of
           h1 # h2 # rest \<Rightarrow>
             (case (hexValue h1, hexValue h2) of
                (Some a, Some b) \<Rightarrow> map_option (Cons (Escape (16 * a + b))) (uri_tokens rest)
              | _ \<Rightarrow> None)
         | _ \<Rightarrow> None)
      else map_option (Cons (Literal c)) (uri_tokens cs))"

text \<open>The number of bytes a leading byte announces; 0 for a byte that cannot lead.\<close>

definition utf8_length :: "nat \<Rightarrow> nat" where
  "utf8_length b =
     (if 192 \<le> b \<and> b < 224 then 2 else if 224 \<le> b \<and> b < 240 then 3
      else if 240 \<le> b \<and> b < 248 then 4 else 0)"

text \<open>
  A leading byte and the bytes after it encode one code point: the announced number of
  continuation bytes, no overlong form, no surrogate, nothing above \<open>U+10FFFF\<close>.
\<close>

definition utf8_sequence :: "nat \<Rightarrow> nat list \<Rightarrow> bool" where
  "utf8_sequence b bs =
     (list_all (\<lambda>x. 128 \<le> x \<and> x < 192) bs \<and>
      (case bs of
         [b1] \<Rightarrow> utf8_length b = 2 \<and> 128 \<le> (b - 192) * 64 + (b1 - 128)
       | [b1, b2] \<Rightarrow>
           utf8_length b = 3 \<and>
           (let cp = (b - 224) * 4096 + (b1 - 128) * 64 + (b2 - 128)
            in 2048 \<le> cp \<and> \<not> (55296 \<le> cp \<and> cp \<le> 57343))
       | [b1, b2, b3] \<Rightarrow>
           utf8_length b = 4 \<and>
           (let cp = (b - 240) * 262144 + (b1 - 128) * 4096 + (b2 - 128) * 64 + (b3 - 128)
            in 65536 \<le> cp \<and> cp \<le> 1114111)
       | _ \<Rightarrow> False))"

fun escaped_bytes :: "uri_token list \<Rightarrow> nat list option" where
  "escaped_bytes [] = Some []"
| "escaped_bytes (Escape b # ts) = map_option (Cons b) (escaped_bytes ts)"
| "escaped_bytes (Literal c # ts) = None"

fun uri_assemble :: "uri_token list \<Rightarrow> string option" where
  "uri_assemble [] = Some []"
| "uri_assemble (Literal c # ts) = map_option (Cons c) (uri_assemble ts)"
| "uri_assemble (Escape b # ts) =
     (if b < 128 then map_option (Cons (char_of b)) (uri_assemble ts)
      else case escaped_bytes (take (utf8_length b - 1) ts) of
        None \<Rightarrow> None
      | Some bs \<Rightarrow>
          if utf8_sequence b bs
          then map_option (append (map char_of (b # bs))) (uri_assemble (drop (utf8_length b - 1) ts))
          else None)"

definition decodeURIComponent :: "string \<Rightarrow> string option" where
  "decodeURIComponent s = (case uri_tokens s of None \<Rightarrow> None | Some ts \<Rightarrow> uri_assemble ts)"

text \<open>
  The string that \<open>parseAuthInfo\<close> hands to \<open>JSON.parse\<close>: the value decoded once, decoded
  again when a \<open>%\<close> is left, and the value itself whenever a decoding throws.
\<close>

definition decodeAuthValue :: "string \<Rightarrow> string" where
  "decodeAuthValue v =
     (let decoded = (case decodeURIComponent v of Some d \<Rightarrow> d | None \<Rightarrow> v)
      in if str_includes decoded ''%''
         then (case decodeURIComponent decoded of Some d \<Rightarrow> d | None \<Rightarrow> v)
         else decoded)"

text \<open>
  \<open>parseAuthInfo\<close>.  \<open>JSON.parse\<close> belongs to the platform and is a parameter: it gives
  \<open>None\<close> where \<open>JSON.parse\<close> throws or yields null, and the record otherwise (the code
  casts its result to \<open>AuthInfo\<close>).  The argument is \<open>None\<close> for null or undefined.
\<close>

definition parseAuthInfo :: "(string \<Rightarrow> 'a option) \<Rightarrow> string option \<Rightarrow> 'a option" where
  "parseAuthInfo JSON_parse v =
     (case v of
        None \<Rightarrow> None
      | Some s \<Rightarrow> if s = [] then None else JSON_parse (decodeAuthValue s))"

text \<open>
  A string is well-formed when it is the UTF-8 encoding of a sequence of code points: the
  image of a JavaScript string without lone surrogates.
\<close>

fun wf_utf8 :: "string \<Rightarrow> bool" where
  "wf_utf8 [] = True"
| "wf_utf8 (c # cs) =
     (if (of_char c :: nat) < 128 then wf_utf8 cs
      else utf8_sequence (of_char c) (map of_char (take (utf8_length (of_char c) - 1) cs)) \<and>
           wf_utf8 (drop (utf8_length (of_char c) - 1) cs))"

text \<open>The token an escaped string is made of, character by character.\<close>

definition uri_token_of :: "char \<Rightarrow> uri_token" where
  "uri_token_of c = (if uriUnescaped c then Literal c else Escape (of_char c))"

section \<open>The authorization header\<close>

text \<open>
  The code points of a string, each as its bytes.  \<open>js_whitespace\<close> lists what
  \<open>trim()\<close> removes and \<open>\s\<close> matches (white space and line terminators of ECMAScript),
  \<open>line_terminators\<close> what \<open>.\<close> does not match.
\<close>

fun code_points :: "string \<Rightarrow> string list" where
  "code_points [] = []"
| "code_points (c # cs) =
     (c # take (utf8_length (of_char c) - 1) cs) #
     code_points (drop (utf8_length (of_char c) - 1) cs)"

definition js_whitespace :: "string list" where
  "js_whitespace =
     map (map char_of)
       [[9], [10], [11], [12], [13], [32], [194, 160], [225, 154, 128],
        [226, 128, 128], [226, 128, 129], [226, 128, 130], [226, 128, 131], [226, 128, 132],
        [226, 128, 133], [226, 128, 134], [226, 128, 135], [226, 128, 136], [226, 128, 137],
        [226, 128, 138], [226, 128, 168], [226, 128, 169], [226, 128, 175], [226, 129, 159],
        [227, 128, 128], [239, 187, 191 :: nat]]"

definition line_terminators :: "string list" where
  "line_terminators = map (map char_of) [[10], [13], [226, 128, 168], [226, 128, 169 :: nat]]"

definition is_space :: "string \<Rightarrow> bool" where
  "is_space u = (u \<in> set js_whitespace)"

definition is_line_terminator :: "string \<Rightarrow> bool" where
  "is_line_terminator u = (u \<in> set line_terminators)"

definition trim :: "string \<Rightarrow> string" where
  "trim s = concat (rev (dropWhile is_space (rev (dropWhile is_space (code_points s)))))"

definition ascii_lower :: "char \<Rightarrow> char" where
  "ascii_lower c =
     (let n = (of_char c :: nat) in if 65 \<le> n \<and> n \<le> 90 then char_of (n + 32) else c)"

text \<open>
  The group captured by \<open>/^kw\s+(.+)$/i\<close>, for a keyword \<open>kw\<close> of lower-case letters.
  \<open>\s+\<close> takes all the white space after the keyword when something follows it that
  \<open>.+\<close> can match to the end; when only white space follows, it gives its last
  character back to \<open>.+\<close>.
\<close>

definition scheme_match :: "string \<Rightarrow> string \<Rightarrow> string option" where
  "scheme_match kw s =
     (if map ascii_lower (take (length kw) s) = kw then
        (let us = code_points (drop (length kw) s);
             ws = takeWhile is_space us;
             rest = dropWhile is_space us
         in if ws = [] then None
            else if rest \<noteq> [] then
              (if list_all (\<lambda>u. \<not> is_line_terminator u) rest then Some (concat rest) else None)
            else if 2 \<le> length ws \<and> \<not> is_line_terminator (last ws) then Some (last ws)
            else None)
      else None)"

definition getAuthTokenFromHeader :: "string \<Rightarrow> string" where
  "getAuthTokenFromHeader v =
     (let trimmed = trim v in
        if trimmed = [] then []
        else case scheme_match ''bearer'' trimmed of
          Some g \<Rightarrow> trim g
        | None \<Rightarrow>
            (case scheme_match ''token'' trimmed of
               Some g \<Rightarrow> trim g
             | None \<Rightarrow> trimmed))"

text \<open>
  What \<open>getAuthInfoFromCookie\<close> reads of the request: \<open>headers.get('authorization')\<close> and
  the value of the cookie \<open>auth\<close>, each \<open>None\<close> when absent.
\<close>

record server_request =
  authorization :: "string option"
  auth_cookie :: "string option"

text \<open>
  \<open>getAuthInfoFromCookie\<close>.  The test \<open>if (headerAuthInfo)\<close> is JavaScript's truthiness
  of the parsed value, a parameter beside \<open>JSON.parse\<close>: every object, and so every
  record, is truthy; of the other values \<open>JSON.parse\<close> can yield, \<open>false\<close>, \<open>0\<close> and the
  empty string are not.
\<close>

definition getAuthInfoFromCookie ::
  "(string \<Rightarrow> 'a option) \<Rightarrow> ('a \<Rightarrow> bool) \<Rightarrow> server_request \<Rightarrow> 'a option" where
  "getAuthInfoFromCookie JSON_parse truthy req =
     (case (case authorization req of
              None \<Rightarrow> None
            | Some authHeader \<Rightarrow>
                if authHeader = [] then None
                else (case parseAuthInfo JSON_parse (Some (getAuthTokenFromHeader authHeader)) of
                        None \<Rightarrow> None
                      | Some headerAuthInfo \<Rightarrow>
                          if truthy headerAuthInfo then Some headerAuthInfo else None)) of
        Some headerAuthInfo \<Rightarrow> Some headerAuthInfo
      | None \<Rightarrow>
          (case auth_cookie req of
             None \<Rightarrow> None
           | Some v \<Rightarrow> parseAuthInfo JSON_parse (Some v)))"

text \<open>
  A token as an authorization header usually carries it: ASCII characters, no line
  terminator, no white space at either end.
\<close>

definition header_token :: "string \<Rightarrow> bool" where
  "header_token t =
     (t \<noteq> [] \<and> list_all (\<lambda>c. (of_char c :: nat) < 128 \<and> (of_char c :: nat) \<notin> {10, 13}) t \<and>
      \<not> is_space [hd t] \<and> \<not> is_space [last t])"

section \<open>Sample data\<close>

text \<open>The state when the component mounts, and the durations of the specification's scenarios.\<close>

definition initial_state :: state where
  "initial_state =
     \<lparr>isRefreshing = False, refreshPromise = None, promises = [], effects = [], logoutChains = 0\<rparr>"

definition sample_config :: token_config where
  "sample_config = \<lparr>ACCESS_TOKEN_AGE = 900000, RENEWAL_THRESHOLD = 600000\<rparr>"

definition credential :: "int \<Rightarrow> int \<Rightarrow> auth_info" where
  "credential ts rexp =
     \<lparr>password = None, username = Some ''alice'', signature = None, timestamp = Some ts,
      role = Some User, tokenId = None, refreshToken_field = None, refreshExpires = Some rexp\<rparr>"

definition browser_at :: "auth_info option \<Rightarrow> int \<Rightarrow> string \<Rightarrow> browser" where
  "browser_at a t path = \<lparr>cookieAuth = a, now = t, pathname = path, search = []\<rparr>"

definition session_browser :: "int \<Rightarrow> string \<Rightarrow> browser" where
  "session_browser t path =
     browser_at (Some (credential 1700000000000 1700604800000)) (1700000000000 + t) path"

definition ok_response :: response where
  "ok_response = \<lparr>status = 200, body_text = Some ''ok''\<rparr>"

definition unauthorized_response :: response where
  "unauthorized_response = \<lparr>status = 401, body_text = Some ''Unauthorized''\<rparr>"


definition sample_refresh_env :: "fetch_result \<Rightarrow> browser \<Rightarrow> refresh_env" where
  "sample_refresh_env r b =
     \<lparr>refresh_result = r, refresh_browser = b,
      refresh_logout_result = Responded ok_response, refresh_logout_browser = b\<rparr>"

text \<open>
  An environment: the browser at the start, the outcomes of the request, of a renewal and
  of the replay, and the browser from the replay on.
\<close>

definition sample_env :: "browser \<Rightarrow> fetch_result \<Rightarrow> fetch_result \<Rightarrow> fetch_result \<Rightarrow> browser \<Rightarrow> run_env" where
  "sample_env b first renewal replay b2 =
     \<lparr>start_browser = b, proactive_env = sample_refresh_env renewal b, first_result = first,
      response_browser = b, reactive_env = sample_refresh_env renewal b, replay_result = replay,
      replay_browser = b2, logout_result = Responded ok_response, logout_browser = b2\<rparr>"

definition play_request :: request where
  "play_request = \<lparr>url = ''/api/favorites'', options = []\<rparr>"

definition login_request :: request where
  "login_request = \<lparr>url = ''https://tv.example/api/login?next=1'', options = post_options\<rparr>"

text \<open>
  A run in which the request and its replay are both answered by a 401 that names a
  marker, and the renewal in between succeeds.  No renewal is due at the start; the page
  is \<open>/play\<close> when the first response arrives and \<open>path\<close> when the replay's does.
\<close>

definition still_401_env :: "string \<Rightarrow> run_env" where
  "still_401_env path =
     sample_env (session_browser 180000 ''/play'') (Responded unauthorized_response)
       (Responded ok_response) (Responded unauthorized_response) (session_browser 190000 path)"

text \<open>
  Three callers of \<open>refreshToken\<close>: two before the renewal call is answered, one while
  the logout call that follows a rejected renewal is in flight.
\<close>

definition three_callers :: "event list" where
  "three_callers =
     [CallRefreshToken, CallRefreshToken,
      RefreshResponds (session_browser 360000 ''/play'') 0 (Responded unauthorized_response),
      CallRefreshToken]"

text \<open>The state while a first renewal is in flight.\<close>

definition renewing_state :: state where
  "renewing_state = snd (refreshToken initial_state)"

text \<open>
  JSON texts of credential records: one without a percent sign, one whose username ends
  in a percent sign, one whose username holds the escape \<open>%41\<close>.
\<close>

definition session_json :: string where
  "session_json =
     ''{\"username\":\"alice\",\"timestamp\":1700000000000,\"refreshExpires\":1700604800000}''"

definition percent_json :: string where
  "percent_json = ''{\"username\":\"50%\"}''"

definition escape_json :: string where
  "escape_json = ''{\"username\":\"a%41\"}''"

text \<open>
  A stand-in for \<open>JSON.parse\<close> and for truthiness in examples: the text of an object (it
  starts with a brace) and the text \<open>0\<close> parse, each standing for its value, and any other
  text is rejected; the object is truthy and the number \<open>0\<close> is not.  Three requests: one
  with a bearer token in the header and another session in the cookie, one whose header
  holds no JSON text, and one whose header holds the number \<open>0\<close>.
\<close>

definition sample_parse :: "string \<Rightarrow> string option" where
  "sample_parse s =
     (if s = ''0'' then Some s
      else case s of [] \<Rightarrow> None | c # cs \<Rightarrow> if c = CHR ''{'' then Some s else None)"

definition sample_truthy :: "string \<Rightarrow> bool" where
  "sample_truthy r = (r \<noteq> ''0'')"

definition guest_json :: string where
  "guest_json = ''{\"username\":\"guest\"}''"

definition bearer_request :: server_request where
  "bearer_request =
     \<lparr>authorization = Some (''  bEaReR  '' @ encodeURIComponent guest_json @ '' ''),
      auth_cookie = Some (encodeURIComponent session_json)\<rparr>"

definition opaque_header_request :: server_request where
  "opaque_header_request =
     \<lparr>authorization = Some ''Bearer c2VjcmV0'',
      auth_cookie = Some (encodeURIComponent guest_json)\<rparr>"

definition zero_header_request :: server_request where
  "zero_header_request =
     \<lparr>authorization = Some ''Token 0'',
      auth_cookie = Some (encodeURIComponent guest_json)\<rparr>"

text \<open>
  A run that starts eight days after the credential was issued, its refresh token expired:
  the request is answered by a 401 that names a marker and the renewal is rejected.
\<close>

definition expired_env :: run_env where
  "expired_env =
     sample_env (session_browser 691200000 ''/play'') (Responded unauthorized_response)
       (Responded unauthorized_response) (Responded ok_response)
       (session_browser 691200000 ''/play'')"

text \<open>
  A run in which renewal is due at the start and the renewal before the request is
  rejected, the request is answered by a 401 that names a marker, the renewal after it
  succeeds, and the replay is answered by a 401 again, all on the page \<open>/play\<close>.
\<close>

definition rejected_then_renewed_env :: run_env where
  "rejected_then_renewed_env =
     (sample_env (session_browser 360000 ''/play'') (Responded unauthorized_response)
        (Responded ok_response) (Responded unauthorized_response)
        (session_browser 370000 ''/play''))
     \<lparr>proactive_env :=
        sample_refresh_env (Responded unauthorized_response) (session_browser 360000 ''/play'')\<rparr>"

section \<open>The expiry policy: properties\<close>

text \<open>
  The renewal-due check as the specification words it: the record is there, carries both
  fields, the refresh token has not expired, and the remaining lifetime is below the
  threshold.
\<close>

definition renewal_due_spec :: "token_config \<Rightarrow> browser \<Rightarrow> bool" where
  "renewal_due_spec cfg b =
     (case cookieAuth b of
        None \<Rightarrow> False
      | Some a \<Rightarrow>
          (case (timestamp a, refreshExpires a) of
             (Some ts, Some rexp) \<Rightarrow>
               now b < rexp \<and> ACCESS_TOKEN_AGE cfg - (now b - ts) < RENEWAL_THRESHOLD cfg
           | _ \<Rightarrow> False))"

text \<open>
  Claim C3, as the code has it.  \<open>shouldRefreshToken\<close> returns true if and only if the
  decoded record is there, carries a timestamp and a refreshExpires that are both not
  zero, now is before refreshExpires, and the remaining lifetime
  \<open>ACCESS_TOKEN_AGE - (now - timestamp)\<close> is below \<open>RENEWAL_THRESHOLD\<close>.  In particular it
  returns false for a null record and for one missing either field.  The test
  \<open>!authInfo.timestamp\<close> takes a field that is zero for a missing one, which the claim
  as stated leaves out.
\<close>

theorem shouldRefreshToken_due_iff:
  "(fst (shouldRefreshToken cfg b s) \<longleftrightarrow>
      (\<exists>a ts rexp. cookieAuth b = Some a \<and> timestamp a = Some ts \<and> refreshExpires a = Some rexp \<and>
         ts \<noteq> 0 \<and> rexp \<noteq> 0 \<and> now b < rexp \<and>
         ACCESS_TOKEN_AGE cfg - (now b - ts) < RENEWAL_THRESHOLD cfg)) \<and>
   (cookieAuth b = None \<longrightarrow> \<not> fst (shouldRefreshToken cfg b s)) \<and>
   (\<forall>a. cookieAuth b = Some a \<and> (timestamp a = None \<or> refreshExpires a = None) \<longrightarrow>
      \<not> fst (shouldRefreshToken cfg b s))"
  by (auto simp: shouldRefreshToken_def falsy_def split: option.splits)

text \<open>
  The scenarios of the specification: a credential issued at \<open>T\<close> and renewable for seven
  days, a lifetime of 15 minutes and a threshold of 10.  At \<open>T + 6 min\<close> renewal is due,
  at \<open>T + 3 min\<close> it is not, and without a record it is not.
\<close>

theorem shouldRefreshToken_due_iff_witness:
  "fst (shouldRefreshToken sample_config
          (browser_at (Some (credential 1700000000000 1700604800000)) 1700000360000 ''/play'')
          initial_state) \<and>
   \<not> fst (shouldRefreshToken sample_config
          (browser_at (Some (credential 1700000000000 1700604800000)) 1700000180000 ''/play'')
          initial_state) \<and>
   \<not> fst (shouldRefreshToken sample_config (browser_at None 1700000360000 ''/play'') initial_state)"
  using shouldRefreshToken_due_iff
    [of sample_config "browser_at (Some (credential 1700000000000 1700604800000)) 1700000360000 ''/play''"
        initial_state]
    shouldRefreshToken_due_iff
    [of sample_config "browser_at (Some (credential 1700000000000 1700604800000)) 1700000180000 ''/play''"
        initial_state]
    shouldRefreshToken_due_iff
    [of sample_config "browser_at None 1700000360000 ''/play''" initial_state]
  by (simp add: sample_config_def browser_at_def credential_def)

text \<open>
  The claim as stated fails for a record whose timestamp is zero: it carries both fields,
  the refresh token has not expired and the remaining lifetime is far below the threshold,
  yet the code answers false.
\<close>

theorem shouldRefreshToken_zero_timestamp_counterexample:
  "\<not> (fst (shouldRefreshToken sample_config
             (browser_at (Some (credential 0 1700604800000)) 1700000360000 ''/play'') initial_state)
       \<longleftrightarrow> renewal_due_spec sample_config
             (browser_at (Some (credential 0 1700604800000)) 1700000360000 ''/play''))"
  by (simp add: shouldRefreshToken_def falsy_def renewal_due_spec_def sample_config_def
      browser_at_def credential_def)

section \<open>Effects\<close>

lemma effects_emit: "effects (emit e s) = effects s @ [e]"
  by (simp add: emit_def)

lemma issued_append: "effects s' = effects s @ xs \<Longrightarrow> issued s s' = xs"
  by (simp add: issued_def)

section \<open>The interceptor: properties\<close>

lemma funpow_fixed: "f d = d \<Longrightarrow> (f ^^ n) d = d"
  by (induction n) simp_all

lemma funpow_reach:
  assumes "(f ^^ k) c = d" and "f d = d" and "k \<le> n"
  shows "(f ^^ n) c = d"
proof -
  obtain m where "n = m + k" using assms(3) by (metis le_add_diff_inverse2)
  then show ?thesis using assms(1,2) by (simp add: funpow_add funpow_fixed)
qed

lemma fetch_step_Fulfilled: "fetch_step env req (Fulfilled r, s) = (Fulfilled r, s)"
  by (simp add: fetch_step_def)

lemma fetch_step_Rejected: "fetch_step env req (Rejected, s) = (Rejected, s)"
  by (simp add: fetch_step_def)

lemma fetch_step_passthrough_settled:
  "fetch_step env req (passthrough_settled r, s) = (passthrough_settled r, s)"
  by (simp add: fetch_step_def passthrough_settled_def split: fetch_result.splits)

lemma promise_at_emit [simp]: "promise_at (emit e s) p = promise_at s p"
  by (simp add: promise_at_def emit_def)

lemma promise_at_settle:
  "promise_at (settle q v s) p =
     (if p = q \<and> p < length (promises s) then Some (Resolved v) else promise_at s p)"
  by (simp add: promise_at_def settle_def)

text \<open>An awaited promise that exists resolves: the wrapper is resumed.\<close>

lemma await_refresh_resolves:
  assumes "p < length (promises s)"
  shows "\<exists>v. fst (await_refresh e p s) = Some v"
proof -
  from assms obtain st where st: "promise_at s p = Some st"
    by (simp add: promise_at_def)
  show ?thesis
  proof (cases st)
    case AwaitingRefresh
    then show ?thesis using st assms
      by (auto simp: await_refresh_def Let_def refreshResponded_def refreshLogoutResponded_def
          outcome_def promise_at_def settle_def emit_def split: fetch_result.splits)
  next
    case AwaitingLogout
    then show ?thesis using st assms
      by (auto simp: await_refresh_def Let_def refreshResponded_def refreshLogoutResponded_def
          outcome_def promise_at_def settle_def emit_def split: fetch_result.splits)
  next
    case (Resolved v)
    then show ?thesis using st assms
      by (auto simp: await_refresh_def Let_def refreshResponded_def refreshLogoutResponded_def
          outcome_def promise_at_def settle_def emit_def split: fetch_result.splits)
  qed
qed

lemma refreshToken_valid:
  assumes "wf_state s"
  shows "fst (refreshToken s) < length (promises (snd (refreshToken s)))"
  using assms
  by (auto simp: refreshToken_def startRefresh_def wf_state_def emit_def split: option.splits)

lemma shouldRefreshToken_due_state:
  "shouldRefreshToken cfg b s = (True, s1) \<Longrightarrow> s1 = s"
  by (auto simp: shouldRefreshToken_def split: option.splits if_splits)

text \<open>From a well-formed state the request of a wrapped call is sent.\<close>

lemma request_sent_phase:
  assumes "wf_state s" and "\<not> is_excluded (url req)"
  shows "fst (request_sent cfg env req s) = AwaitResponse \<and>
         (\<exists>xs. effects (snd (request_sent cfg env req s)) = effects s @ xs @ [OriginalFetch req])"
proof (cases "shouldRefreshToken cfg (start_browser env) s")
  case (Pair due s1)
  show ?thesis
  proof (cases due)
    case False
    with Pair assms(2) show ?thesis
      by (auto simp: request_sent_def fetch_start_def emit_def shouldRefreshToken_def
          split: option.splits if_splits)
  next
    case True
    with Pair have s1: "s1 = s" by (simp add: shouldRefreshToken_due_state)
    obtain p s2 where rt: "refreshToken s = (p, s2)" by (cases "refreshToken s")
    have "p < length (promises s2)" using refreshToken_valid [OF assms(1)] rt by simp
    then obtain v where v: "fst (await_refresh (proactive_env env) p s2) = Some v"
      using await_refresh_resolves by blast
    obtain s3 where s3: "await_refresh (proactive_env env) p s2 = (Some v, s3)"
      using v by (cases "await_refresh (proactive_env env) p s2") simp
    have e2: "\<exists>xs. effects s2 = effects s @ xs"
      using rt by (auto simp: refreshToken_def startRefresh_def emit_def split: option.splits if_splits)
    have e3: "\<exists>xs. effects s3 = effects s2 @ xs"
      using s3
      by (auto simp: await_refresh_def Let_def refreshResponded_def refreshLogoutResponded_def
          settle_def emit_def split: fetch_result.splits if_splits)
    from e2 e3 obtain xs where "effects s3 = effects s @ xs" by auto
    then show ?thesis using Pair True s1 rt s3 assms(2)
      by (simp add: request_sent_def fetch_start_def fetch_step_def after_proactive_def emit_def)
  qed
qed

lemma wrapped_fetch_after_sent:
  assumes "wf_state s" and "\<not> is_excluded (url req)"
  shows "\<exists>k\<ge>6. wrapped_fetch cfg env req s =
           (fetch_step env req ^^ k) (AwaitResponse, snd (request_sent cfg env req s))"
proof -
  have ph: "fst (request_sent cfg env req s) = AwaitResponse"
    using request_sent_phase [OF assms] by simp
  show ?thesis
  proof (cases "\<exists>p s1. fetch_start cfg (start_browser env) req s = (AwaitProactive p, s1)")
    case True
    then obtain p s1 where st: "fetch_start cfg (start_browser env) req s = (AwaitProactive p, s1)"
      by blast
    have rs: "request_sent cfg env req s = fetch_step env req (AwaitProactive p, s1)"
      by (simp add: request_sent_def st)
    have "wrapped_fetch cfg env req s = (fetch_step env req ^^ 6) (request_sent cfg env req s)"
      unfolding wrapped_fetch_def st rs
      by (simp add: numeral_eq_Suc funpow_swap1)
    moreover have "request_sent cfg env req s = (AwaitResponse, snd (request_sent cfg env req s))"
      using ph by (cases "request_sent cfg env req s") simp
    ultimately show ?thesis by (metis order_refl)
  next
    case False
    then have rs: "request_sent cfg env req s = fetch_start cfg (start_browser env) req s"
      by (auto simp: request_sent_def split: prod.splits fetch_phase.splits)
    have "request_sent cfg env req s = (AwaitResponse, snd (request_sent cfg env req s))"
      using ph by (cases "request_sent cfg env req s") simp
    then have "wrapped_fetch cfg env req s =
        (fetch_step env req ^^ 7) (AwaitResponse, snd (request_sent cfg env req s))"
      unfolding wrapped_fetch_def using rs by simp
    then show ?thesis by (intro exI [of _ 7]) simp
  qed
qed

text \<open>
  Claim C4.  For a request whose URL contains one of the five excluded fragments the
  wrapper hands the request to the original \<open>fetch\<close> and follows its outcome: the call of
  the original \<open>fetch\<close> is the only effect, the state is otherwise untouched (no expiry
  check, no renewal), and a response is returned as it is, a 401 with a marker included.
\<close>

theorem excluded_endpoint_bypass:
  assumes "f \<in> {''/api/auth/refresh'', ''/api/login'', ''/api/logout'', ''/api/register'',
                 ''/api/auth/oidc''}"
    and "str_includes (url req) f"
  shows "wrapped_fetch cfg env req s =
           (passthrough_settled (first_result env), emit (OriginalFetch req) s) \<and>
         issued s (snd (wrapped_fetch cfg env req s)) = [OriginalFetch req] \<and>
         (\<forall>resp. first_result env = Responded resp \<longrightarrow>
            fst (wrapped_fetch cfg env req s) = Fulfilled resp)"
proof -
  have ex: "is_excluded (url req)"
    using assms by (auto simp: is_excluded_def)
  have start: "fetch_start cfg (start_browser env) req s = (AwaitPassthrough, emit (OriginalFetch req) s)"
    using ex by (simp add: fetch_start_def)
  have one: "(fetch_step env req ^^ 1) (fetch_start cfg (start_browser env) req s) =
      (passthrough_settled (first_result env), emit (OriginalFetch req) s)"
    by (simp add: start fetch_step_def)
  have w: "wrapped_fetch cfg env req s =
      (passthrough_settled (first_result env), emit (OriginalFetch req) s)"
    unfolding wrapped_fetch_def
    by (rule funpow_reach [OF one fetch_step_passthrough_settled]) simp
  show ?thesis
    by (simp add: w issued_def emit_def passthrough_settled_def)
qed

text \<open>
  A login request answered by a 401 that names a marker, six minutes after the credential
  was issued (renewal would be due): the response comes back and the request is the only
  effect.
\<close>

theorem excluded_endpoint_bypass_witness:
  "wrapped_fetch sample_config
     (sample_env (session_browser 360000 ''/play'') (Responded unauthorized_response)
        (Responded ok_response) (Responded ok_response) (session_browser 360000 ''/play''))
     login_request initial_state
   = (Fulfilled unauthorized_response, initial_state\<lparr>effects := [OriginalFetch login_request]\<rparr>)"
  using excluded_endpoint_bypass [of "''/api/login''" login_request sample_config
     "sample_env (session_browser 360000 ''/play'') (Responded unauthorized_response)
        (Responded ok_response) (Responded ok_response) (session_browser 360000 ''/play'')" initial_state]
  by (simp add: emit_def initial_state_def login_request_def sample_env_def passthrough_settled_def)



section \<open>The replay\<close>

lemma count_effect_append [simp]:
  "count_effect e (xs @ ys) = count_effect e xs + count_effect e ys"
  by (simp add: count_effect_def)

lemma count_effect_absent: "e \<notin> set xs \<Longrightarrow> count_effect e xs = 0"
  by (induction xs) (auto simp: count_effect_def)

lemma count_effect_Cons [simp]:
  "count_effect e (x # xs) = (if x = e then 1 else 0) + count_effect e xs"
  by (simp add: count_effect_def)

lemma count_effect_Nil [simp]: "count_effect e [] = 0"
  by (simp add: count_effect_def)

lemma request_not_auth:
  assumes "\<not> is_excluded (url req)"
  shows "req \<noteq> refresh_request \<and> req \<noteq> logout_request"
  using assms by (auto simp: is_excluded_def refresh_request_def logout_request_def)

lemma refreshToken_effects:
  assumes "req \<noteq> refresh_request"
  shows "\<exists>xs. effects (snd (refreshToken s)) = effects s @ xs \<and> OriginalFetch req \<notin> set xs"
  using assms
  by (auto simp: refreshToken_def startRefresh_def emit_def split: option.splits)

lemma await_refresh_effects:
  assumes "req \<noteq> logout_request"
  shows "\<exists>xs. effects (snd (await_refresh e p s)) = effects s @ xs \<and> OriginalFetch req \<notin> set xs"
  using assms
  by (auto simp: await_refresh_def Let_def refreshResponded_def refreshLogoutResponded_def
      settle_def emit_def split: fetch_result.splits)

lemma shouldRefreshToken_effects:
  assumes "req \<noteq> logout_request"
  shows "\<exists>xs. effects (snd (shouldRefreshToken cfg b s)) = effects s @ xs \<and> OriginalFetch req \<notin> set xs"
  using assms
  by (auto simp: shouldRefreshToken_def emit_def split: option.splits)

lemma fetch_step_sends:
  assumes "req \<noteq> refresh_request" and "req \<noteq> logout_request"
  shows "\<exists>xs. effects (snd (fetch_step env req (ph, s))) = effects s @ xs \<and>
           count_effect (OriginalFetch req) xs + sends_by_phase ph
             \<le> sends_by_phase (fst (fetch_step env req (ph, s)))"
proof (cases ph)
  case AwaitPassthrough
  then show ?thesis
    by (simp add: fetch_step_def passthrough_settled_def split: fetch_result.splits)
next
  case (AwaitProactive p)
  obtain v s1 where a: "await_refresh (proactive_env env) p s = (v, s1)"
    by (cases "await_refresh (proactive_env env) p s")
  obtain xs where xs: "effects s1 = effects s @ xs" "OriginalFetch req \<notin> set xs"
    using await_refresh_effects [OF assms(2), of "proactive_env env" p s] a by auto
  show ?thesis using AwaitProactive a xs
    by (cases v) (simp_all add: fetch_step_def after_proactive_def emit_def count_effect_absent)
next
  case AwaitResponse
  then show ?thesis
    by (simp add: fetch_step_def after_response_def split: fetch_result.splits)
next
  case (AwaitText resp)
  obtain p s1 where r: "refreshToken s = (p, s1)" by (cases "refreshToken s")
  obtain xs where xs: "effects s1 = effects s @ xs" "OriginalFetch req \<notin> set xs"
    using refreshToken_effects [OF assms(1), of s] r by auto
  show ?thesis using AwaitText r xs
    by (simp add: fetch_step_def after_text_def count_effect_absent split: option.splits)
next
  case (AwaitReactive resp p)
  obtain v s1 where a: "await_refresh (reactive_env env) p s = (v, s1)"
    by (cases "await_refresh (reactive_env env) p s")
  obtain xs where xs: "effects s1 = effects s @ xs" "OriginalFetch req \<notin> set xs"
    using await_refresh_effects [OF assms(2), of "reactive_env env" p s] a by auto
  show ?thesis using AwaitReactive a xs
    by (cases v) (simp_all add: fetch_step_def after_reactive_def emit_def count_effect_absent)
next
  case (AwaitReplay resp)
  then show ?thesis using assms(2)
    by (simp add: fetch_step_def after_replay_def emit_def split: fetch_result.splits)
next
  case (AwaitLogout resp)
  then show ?thesis
    by (simp add: fetch_step_def after_logout_def emit_def split: fetch_result.splits)
next
  case (Fulfilled resp)
  then show ?thesis by (simp add: fetch_step_def)
next
  case Rejected
  then show ?thesis by (simp add: fetch_step_def)
qed

lemma fetch_steps_sends:
  assumes "req \<noteq> refresh_request" and "req \<noteq> logout_request"
  shows "\<exists>xs. effects (snd ((fetch_step env req ^^ n) (ph, s))) = effects s @ xs \<and>
           count_effect (OriginalFetch req) xs + sends_by_phase ph
             \<le> sends_by_phase (fst ((fetch_step env req ^^ n) (ph, s)))"
proof (induction n)
  case 0
  show ?case by simp
next
  case (Suc n)
  obtain ph1 s1 where c: "(fetch_step env req ^^ n) (ph, s) = (ph1, s1)"
    by (cases "(fetch_step env req ^^ n) (ph, s)")
  from Suc c obtain xs where xs: "effects s1 = effects s @ xs"
    "count_effect (OriginalFetch req) xs + sends_by_phase ph \<le> sends_by_phase ph1" by auto
  obtain ys where ys: "effects (snd (fetch_step env req (ph1, s1))) = effects s1 @ ys"
    "count_effect (OriginalFetch req) ys + sends_by_phase ph1
       \<le> sends_by_phase (fst (fetch_step env req (ph1, s1)))"
    using fetch_step_sends [OF assms] by blast
  show ?case
    using xs ys c by (intro exI [of _ "xs @ ys"]) simp
qed

lemma sends_by_phase_le: "sends_by_phase ph \<le> 2"
  by (cases ph) simp_all

lemma fetch_start_sends:
  assumes "\<not> is_excluded (url req)"
  shows "\<exists>xs. effects (snd (fetch_start cfg b req s)) = effects s @ xs \<and>
           count_effect (OriginalFetch req) xs \<le> sends_by_phase (fst (fetch_start cfg b req s))"
proof -
  have ne: "req \<noteq> refresh_request" "req \<noteq> logout_request"
    using request_not_auth [OF assms] by simp_all
  obtain due s1 where d: "shouldRefreshToken cfg b s = (due, s1)"
    by (cases "shouldRefreshToken cfg b s")
  obtain xs where xs: "effects s1 = effects s @ xs" "OriginalFetch req \<notin> set xs"
    using shouldRefreshToken_effects [OF ne(2), of cfg b s] d by auto
  obtain p s2 where r: "refreshToken s1 = (p, s2)" by (cases "refreshToken s1")
  obtain ys where ys: "effects s2 = effects s1 @ ys" "OriginalFetch req \<notin> set ys"
    using refreshToken_effects [OF ne(1), of s1] r by auto
  show ?thesis using assms d xs r ys
    by (cases due) (simp_all add: fetch_start_def emit_def count_effect_absent)
qed

lemma sends_at_most_two:
  "count_effect (OriginalFetch req) (issued s (snd (wrapped_fetch cfg env req s))) \<le> 2"
proof (cases "is_excluded (url req)")
  case True
  then have "fetch_start cfg (start_browser env) req s = (AwaitPassthrough, emit (OriginalFetch req) s)"
    by (simp add: fetch_start_def)
  then have one: "(fetch_step env req ^^ 1) (fetch_start cfg (start_browser env) req s) =
      (passthrough_settled (first_result env), emit (OriginalFetch req) s)"
    by (simp add: fetch_step_def)
  have "wrapped_fetch cfg env req s =
      (passthrough_settled (first_result env), emit (OriginalFetch req) s)"
    unfolding wrapped_fetch_def
    by (rule funpow_reach [OF one fetch_step_passthrough_settled]) simp
  then show ?thesis by (simp add: issued_def emit_def)
next
  case False
  have ne: "req \<noteq> refresh_request" "req \<noteq> logout_request"
    using request_not_auth [OF False] by simp_all
  obtain ph1 s1 where st: "fetch_start cfg (start_browser env) req s = (ph1, s1)"
    by (cases "fetch_start cfg (start_browser env) req s")
  obtain xs where xs: "effects s1 = effects s @ xs"
    "count_effect (OriginalFetch req) xs \<le> sends_by_phase ph1"
    using fetch_start_sends [OF False, of cfg "start_browser env" s] st by auto
  obtain ys where ys: "effects (snd ((fetch_step env req ^^ 7) (ph1, s1))) = effects s1 @ ys"
    "count_effect (OriginalFetch req) ys + sends_by_phase ph1
       \<le> sends_by_phase (fst ((fetch_step env req ^^ 7) (ph1, s1)))"
    using fetch_steps_sends [OF ne] by blast
  have "issued s (snd (wrapped_fetch cfg env req s)) = xs @ ys"
    using xs ys st by (simp add: wrapped_fetch_def issued_def)
  then show ?thesis
    using xs(2) ys(2) sends_by_phase_le [of "fst ((fetch_step env req ^^ 7) (ph1, s1))"]
    by simp
qed


lemma replayed:
  assumes "wf_state s" and "\<not> is_excluded (url req)"
    and "first_result env = Responded resp" and "status resp = 401"
    and "body_text resp = Some t" and "has_marker t"
    and "pathname (response_browser env) \<noteq> ''/login''"
    and "renewal_after_401 cfg env req s = (Some True, s3)"
  shows "\<exists>k\<ge>3. wrapped_fetch cfg env req s =
           (fetch_step env req ^^ k) (AwaitReplay resp, emit (OriginalFetch req) s3)"
proof -
  let ?s1 = "snd (request_sent cfg env req s)"
  obtain p s2 where rt: "refreshToken ?s1 = (p, s2)" by (cases "refreshToken ?s1")
  have aw: "await_refresh (reactive_env env) p s2 = (Some True, s3)"
    using assms(8) rt by (simp add: renewal_after_401_def)
  have three: "(fetch_step env req ^^ 3) (AwaitResponse, ?s1) =
      (AwaitReplay resp, emit (OriginalFetch req) s3)"
    using assms(3-7) rt aw
    by (simp add: numeral_3_eq_3 fetch_step_def after_response_def after_text_def
        after_reactive_def)
  obtain k where k: "6 \<le> k"
    and w: "wrapped_fetch cfg env req s = (fetch_step env req ^^ k) (AwaitResponse, ?s1)"
    using wrapped_fetch_after_sent [OF assms(1,2)] by blast
  define m where "m = k - 3"
  have m: "k = m + 3" using k by (simp add: m_def)
  have "wrapped_fetch cfg env req s =
      (fetch_step env req ^^ m) (AwaitReplay resp, emit (OriginalFetch req) s3)"
    unfolding w m by (simp only: funpow_add o_apply three)
  moreover have "3 \<le> m" using k m by simp
  ultimately show ?thesis by blast
qed

text \<open>
  Claim C2, as the code has it.  A wrapped request to a URL that is not excluded is answered
  by a 401 whose body names a marker, the page is not the login page, and the renewal
  that follows succeeds.  Then the request is replayed once, so that it has been handed
  to the original \<open>fetch\<close> exactly twice.  If the replay is answered by a 401 and the
  page is not the login page then, the wrapper runs Session Termination once after it: one
  logout call through the original \<open>fetch\<close>, the cookie cleared if that call failed, one
  redirect; the replay's response is returned.  If the page is the login page by then, or
  the replay's status is not 401, the replay's response is returned and nothing follows;
  if the replay fails, the first response is returned.  Whatever happens, no call of the
  wrapper hands its request to the original \<open>fetch\<close> more than twice (the renewal and
  logout calls are other requests).
\<close>

theorem one_replay_bound:
  assumes "wf_state s" and "\<not> is_excluded (url req)"
    and "first_result env = Responded resp" and "status resp = 401"
    and "body_text resp = Some t" and "has_marker t"
    and "pathname (response_browser env) \<noteq> ''/login''"
    and "renewal_after_401 cfg env req s = (Some True, s3)"
  shows "count_effect (OriginalFetch req) (issued s (snd (wrapped_fetch cfg env req s))) = 2 \<and>
    (\<forall>resp2. replay_result env = Responded resp2 \<and> status resp2 = 401 \<and>
        pathname (replay_browser env) \<noteq> ''/login'' \<longrightarrow>
        fst (wrapped_fetch cfg env req s) = Fulfilled resp2 \<and>
        effects (snd (wrapped_fetch cfg env req s)) =
          effects s3 @ [OriginalFetch req, OriginalFetch logout_request] @
          (case logout_result env of NetworkError \<Rightarrow> [ClearAuthCookie] | Responded x \<Rightarrow> []) @
          [SetLocationHref (login_redirect (logout_browser env))]) \<and>
    (\<forall>resp2. replay_result env = Responded resp2 \<and>
        (status resp2 \<noteq> 401 \<or> pathname (replay_browser env) = ''/login'') \<longrightarrow>
        wrapped_fetch cfg env req s = (Fulfilled resp2, emit (OriginalFetch req) s3)) \<and>
    (replay_result env = NetworkError \<longrightarrow>
        wrapped_fetch cfg env req s = (Fulfilled resp, emit (OriginalFetch req) s3)) \<and>
    (\<forall>cfg' env' req' s'.
        count_effect (OriginalFetch req') (issued s' (snd (wrapped_fetch cfg' env' req' s'))) \<le> 2)"
proof -
  let ?c = "(AwaitReplay resp, emit (OriginalFetch req) s3)"
  obtain k where k: "3 \<le> k" and w: "wrapped_fetch cfg env req s = (fetch_step env req ^^ k) ?c"
    using replayed [OF assms] by blast
  have reach: "wrapped_fetch cfg env req s = d"
    if "(fetch_step env req ^^ j) ?c = d" and "fetch_step env req d = d" and "j \<le> 3" for j d
  proof -
    have "j \<le> k" using k that(3) by simp
    then show ?thesis unfolding w by (rule funpow_reach [OF that(1,2)])
  qed
  have A: "\<forall>resp2. replay_result env = Responded resp2 \<and> status resp2 = 401 \<and>
        pathname (replay_browser env) \<noteq> ''/login'' \<longrightarrow>
        fst (wrapped_fetch cfg env req s) = Fulfilled resp2 \<and>
        effects (snd (wrapped_fetch cfg env req s)) =
          effects s3 @ [OriginalFetch req, OriginalFetch logout_request] @
          (case logout_result env of NetworkError \<Rightarrow> [ClearAuthCookie] | Responded x \<Rightarrow> []) @
          [SetLocationHref (login_redirect (logout_browser env))]"
  proof (intro allI impI)
    fix resp2
    assume h: "replay_result env = Responded resp2 \<and> status resp2 = 401 \<and>
        pathname (replay_browser env) \<noteq> ''/login''"
    let ?d = "after_logout (logout_browser env) resp2 (logout_result env)
        (emit (OriginalFetch logout_request) (emit (OriginalFetch req) s3))"
    have "(fetch_step env req ^^ 2) ?c = ?d"
      using h by (simp add: numeral_2_eq_2 fetch_step_def after_replay_def)
    moreover have "fetch_step env req ?d = ?d"
      by (simp add: after_logout_def fetch_step_def)
    ultimately have "wrapped_fetch cfg env req s = ?d" by (rule reach) simp
    then show "fst (wrapped_fetch cfg env req s) = Fulfilled resp2 \<and>
        effects (snd (wrapped_fetch cfg env req s)) =
          effects s3 @ [OriginalFetch req, OriginalFetch logout_request] @
          (case logout_result env of NetworkError \<Rightarrow> [ClearAuthCookie] | Responded x \<Rightarrow> []) @
          [SetLocationHref (login_redirect (logout_browser env))]"
      by (simp add: after_logout_def emit_def split: fetch_result.splits)
  qed
  have B: "\<forall>resp2. replay_result env = Responded resp2 \<and>
        (status resp2 \<noteq> 401 \<or> pathname (replay_browser env) = ''/login'') \<longrightarrow>
        wrapped_fetch cfg env req s = (Fulfilled resp2, emit (OriginalFetch req) s3)"
  proof (intro allI impI)
    fix resp2
    assume h: "replay_result env = Responded resp2 \<and>
        (status resp2 \<noteq> 401 \<or> pathname (replay_browser env) = ''/login'')"
    have "(fetch_step env req ^^ 1) ?c = (Fulfilled resp2, emit (OriginalFetch req) s3)"
      using h by (auto simp: fetch_step_def after_replay_def)
    then show "wrapped_fetch cfg env req s = (Fulfilled resp2, emit (OriginalFetch req) s3)"
      by (rule reach) (simp_all add: fetch_step_Fulfilled)
  qed
  have C: "replay_result env = NetworkError \<longrightarrow>
        wrapped_fetch cfg env req s = (Fulfilled resp, emit (OriginalFetch req) s3)"
  proof
    assume h: "replay_result env = NetworkError"
    have "(fetch_step env req ^^ 1) ?c = (Fulfilled resp, emit (OriginalFetch req) s3)"
      using h by (simp add: fetch_step_def after_replay_def)
    then show "wrapped_fetch cfg env req s = (Fulfilled resp, emit (OriginalFetch req) s3)"
      by (rule reach) (simp_all add: fetch_step_Fulfilled)
  qed
  have tail: "\<exists>zs. effects (snd (wrapped_fetch cfg env req s)) = effects s3 @ [OriginalFetch req] @ zs"
  proof (cases "replay_result env")
    case NetworkError
    with C show ?thesis by (simp add: emit_def)
  next
    case (Responded resp2)
    show ?thesis
    proof (cases "status resp2 = 401 \<and> pathname (replay_browser env) \<noteq> ''/login''")
      case True
      with A Responded show ?thesis by simp
    next
      case False
      with B Responded have "wrapped_fetch cfg env req s = (Fulfilled resp2, emit (OriginalFetch req) s3)"
        by blast
      then show ?thesis by (simp add: emit_def)
    qed
  qed
  have head: "\<exists>xs ys. effects s3 = effects s @ xs @ [OriginalFetch req] @ ys"
  proof -
    let ?s1 = "snd (request_sent cfg env req s)"
    have ne: "req \<noteq> refresh_request" "req \<noteq> logout_request"
      using request_not_auth [OF assms(2)] by simp_all
    obtain p s2 where rt: "refreshToken ?s1 = (p, s2)" by (cases "refreshToken ?s1")
    have aw: "await_refresh (reactive_env env) p s2 = (Some True, s3)"
      using assms(8) rt by (simp add: renewal_after_401_def)
    obtain xs where xs: "effects ?s1 = effects s @ xs @ [OriginalFetch req]"
      using request_sent_phase [OF assms(1,2)] by blast
    obtain y1 where y1: "effects s2 = effects ?s1 @ y1"
      using refreshToken_effects [OF ne(1), of ?s1] rt by auto
    obtain y2 where y2: "effects s3 = effects s2 @ y2"
      using await_refresh_effects [OF ne(2), of "reactive_env env" p s2] aw by auto
    have "effects s3 = effects s @ xs @ [OriginalFetch req] @ (y1 @ y2)"
      using xs y1 y2 by simp
    then show ?thesis by blast
  qed
  have two: "count_effect (OriginalFetch req) (issued s (snd (wrapped_fetch cfg env req s))) = 2"
  proof -
    from head tail obtain xs ys zs where
      "effects (snd (wrapped_fetch cfg env req s)) =
         effects s @ xs @ [OriginalFetch req] @ ys @ [OriginalFetch req] @ zs"
      by auto
    then have "count_effect (OriginalFetch req) (issued s (snd (wrapped_fetch cfg env req s))) \<ge> 2"
      by (simp add: issued_def)
    moreover have "count_effect (OriginalFetch req) (issued s (snd (wrapped_fetch cfg env req s))) \<le> 2"
      by (rule sends_at_most_two)
    ultimately show ?thesis by simp
  qed
  have D: "\<forall>cfg' env' req' s'.
        count_effect (OriginalFetch req') (issued s' (snd (wrapped_fetch cfg' env' req' s'))) \<le> 2"
    by (intro allI) (rule sends_at_most_two)
  show ?thesis
    by (rule conjI [OF two conjI [OF A conjI [OF B conjI [OF C D]]]])
qed

text \<open>
  The request and its replay both answered by 401 on the page \<open>/play\<close>: two sends, and
  after the renewal call the replay, the logout call and the redirect.
\<close>

theorem one_replay_bound_witness:
  "count_effect (OriginalFetch play_request)
     (issued initial_state
        (snd (wrapped_fetch sample_config (still_401_env ''/play'') play_request initial_state))) = 2 \<and>
   fst (wrapped_fetch sample_config (still_401_env ''/play'') play_request initial_state) =
     Fulfilled unauthorized_response \<and>
   effects (snd (wrapped_fetch sample_config (still_401_env ''/play'') play_request initial_state)) =
     [OriginalFetch play_request, OriginalFetch refresh_request, OriginalFetch play_request,
      OriginalFetch logout_request, SetLocationHref ''/login?redirect=%2Fplay'']"
proof -
  let ?env = "still_401_env ''/play''"
  let ?s3 = "initial_state\<lparr>promises := [Resolved True],
      effects := [OriginalFetch play_request, OriginalFetch refresh_request]\<rparr>"
  have h1: "wf_state initial_state" by code_simp
  have h2: "\<not> is_excluded (url play_request)" by code_simp
  have h3: "first_result ?env = Responded unauthorized_response" by code_simp
  have h4: "status unauthorized_response = 401" by code_simp
  have h5: "body_text unauthorized_response = Some ''Unauthorized''" by code_simp
  have h6: "has_marker ''Unauthorized''" by code_simp
  have h7: "pathname (response_browser ?env) \<noteq> ''/login''" by code_simp
  have h8: "renewal_after_401 sample_config ?env play_request initial_state = (Some True, ?s3)"
    by code_simp
  note T = one_replay_bound [OF h1 h2 h3 h4 h5 h6 h7 h8]
  have r1: "replay_result ?env = Responded unauthorized_response" by code_simp
  have r2: "pathname (replay_browser ?env) \<noteq> ''/login''" by code_simp
  have r3: "effects ?s3 @ [OriginalFetch play_request, OriginalFetch logout_request] @
      (case logout_result ?env of NetworkError \<Rightarrow> [ClearAuthCookie] | Responded x \<Rightarrow> []) @
      [SetLocationHref (login_redirect (logout_browser ?env))] =
      [OriginalFetch play_request, OriginalFetch refresh_request, OriginalFetch play_request,
       OriginalFetch logout_request, SetLocationHref ''/login?redirect=%2Fplay'']"
    by code_simp
  from T have c: "count_effect (OriginalFetch play_request)
     (issued initial_state (snd (wrapped_fetch sample_config ?env play_request initial_state))) = 2"
    by (rule conjunct1)
  from T r1 r2 h4 have
    "fst (wrapped_fetch sample_config ?env play_request initial_state) = Fulfilled unauthorized_response \<and>
     effects (snd (wrapped_fetch sample_config ?env play_request initial_state)) =
       effects ?s3 @ [OriginalFetch play_request, OriginalFetch logout_request] @
       (case logout_result ?env of NetworkError \<Rightarrow> [ClearAuthCookie] | Responded x \<Rightarrow> []) @
       [SetLocationHref (login_redirect (logout_browser ?env))]"
    by blast
  with c show ?thesis unfolding r3 by simp
qed

text \<open>
  The claim as stated fails in three ways.  When the page has become the login page by the
  time the replay's 401 arrives, the run ends with the replay: no logout call and no
  redirect, though the renewal succeeded and the replay was answered by 401.  When the
  renewal before the request was rejected and the one after the 401 succeeds, Session
  Termination runs twice in the one call, once by the coordinator and once after the
  replay.  And in that call the original \<open>fetch\<close> is called six times, for the request
  twice, the renewal endpoint twice and the logout endpoint twice.
\<close>

theorem replay_401_on_login_counterexample:
  "fst (renewal_after_401 sample_config (still_401_env ''/login'') play_request initial_state) =
     Some True \<and>
   wrapped_fetch sample_config (still_401_env ''/login'') play_request initial_state =
     (Fulfilled unauthorized_response,
      initial_state\<lparr>promises := [Resolved True],
        effects := [OriginalFetch play_request, OriginalFetch refresh_request,
                    OriginalFetch play_request]\<rparr>) \<and>
   fst (renewal_after_401 sample_config rejected_then_renewed_env play_request initial_state) =
     Some True \<and>
   fst (wrapped_fetch sample_config rejected_then_renewed_env play_request initial_state) =
     Fulfilled unauthorized_response \<and>
   effects (snd (wrapped_fetch sample_config rejected_then_renewed_env play_request initial_state)) =
     [OriginalFetch refresh_request, OriginalFetch logout_request,
      SetLocationHref ''/login?redirect=%2Fplay'',
      OriginalFetch play_request, OriginalFetch refresh_request, OriginalFetch play_request,
      OriginalFetch logout_request, SetLocationHref ''/login?redirect=%2Fplay'']"
  by code_simp

section \<open>Session termination by the expiry policy\<close>

text \<open>
  Once the request has been sent with no renewal before it, the call changes nothing more
  unless the response is a 401 off the login page whose body names a marker.
\<close>

lemma no_renewal_unless_marked_401:
  assumes "fetch_start cfg (start_browser env) req s = (AwaitResponse, s1)"
    and "\<forall>resp t. first_result env = Responded resp \<and> status resp = 401 \<and>
           pathname (response_browser env) \<noteq> ''/login'' \<and> body_text resp = Some t \<longrightarrow>
           \<not> has_marker t"
  shows "snd (wrapped_fetch cfg env req s) = s1"
proof -
  have "\<exists>ph. (fetch_step env req ^^ 2) (AwaitResponse, s1) = (ph, s1) \<and>
      fetch_step env req (ph, s1) = (ph, s1)"
  proof (cases "first_result env")
    case NetworkError
    then show ?thesis
      by (simp add: numeral_2_eq_2 fetch_step_def after_response_def)
  next
    case (Responded resp)
    show ?thesis
    proof (cases "status resp = 401 \<and> pathname (response_browser env) \<noteq> ''/login''")
      case False
      with Responded show ?thesis
        by (auto simp: numeral_2_eq_2 fetch_step_def after_response_def)
    next
      case True
      with Responded assms(2) show ?thesis
        by (cases "body_text resp")
          (simp_all add: numeral_2_eq_2 fetch_step_def after_response_def after_text_def)
    qed
  qed
  then obtain ph where two: "(fetch_step env req ^^ 2) (AwaitResponse, s1) = (ph, s1)"
    and fixed: "fetch_step env req (ph, s1) = (ph, s1)" by blast
  have "wrapped_fetch cfg env req s = (ph, s1)"
    unfolding wrapped_fetch_def assms(1) by (rule funpow_reach [OF two fixed]) simp
  then show ?thesis by simp
qed

text \<open>
  Claim C5, as the code has it.  For every credential record that carries a timestamp and
  a refreshExpires, both not zero, with now at or past refreshExpires, \<open>shouldRefreshToken\<close>
  returns false and starts Session Termination: it calls the logout endpoint at once, and
  when that call settles the chain clears the cookie if the call failed and then redirects
  to the login page.  The check makes no renewal call and the interceptor makes none
  before the request, which goes out next; the wrapped call makes none at all unless the
  response to that request is a 401 off the login page whose body names a marker.
\<close>

theorem expired_refresh_token_terminates:
  assumes "cookieAuth b = Some a" and "timestamp a = Some ts" and "refreshExpires a = Some rexp"
    and "ts \<noteq> 0" and "rexp \<noteq> 0" and "now b \<ge> rexp"
  shows "shouldRefreshToken cfg b s =
           (False, (emit (OriginalFetch logout_request) s)\<lparr>logoutChains := logoutChains s + 1\<rparr>) \<and>
         issued s (expiredLogoutSettled b' NetworkError (snd (shouldRefreshToken cfg b s))) =
           [OriginalFetch logout_request, ClearAuthCookie, SetLocationHref (login_redirect b')] \<and>
         issued s (expiredLogoutSettled b' (Responded resp) (snd (shouldRefreshToken cfg b s))) =
           [OriginalFetch logout_request, SetLocationHref (login_redirect b')] \<and>
         promises (snd (shouldRefreshToken cfg b s)) = promises s \<and>
         isRefreshing (snd (shouldRefreshToken cfg b s)) = isRefreshing s \<and>
         refreshPromise (snd (shouldRefreshToken cfg b s)) = refreshPromise s \<and>
         (\<not> is_excluded (url req) \<longrightarrow>
            fetch_start cfg b req s =
              (AwaitResponse, emit (OriginalFetch req) (snd (shouldRefreshToken cfg b s)))) \<and>
         (\<not> is_excluded (url req) \<and> start_browser env = b \<and>
          (\<forall>resp t. first_result env = Responded resp \<and> status resp = 401 \<and>
             pathname (response_browser env) \<noteq> ''/login'' \<and> body_text resp = Some t \<longrightarrow>
             \<not> has_marker t) \<longrightarrow>
            issued s (snd (wrapped_fetch cfg env req s)) =
              [OriginalFetch logout_request, OriginalFetch req] \<and>
            promises (snd (wrapped_fetch cfg env req s)) = promises s \<and>
            isRefreshing (snd (wrapped_fetch cfg env req s)) = isRefreshing s \<and>
            refreshPromise (snd (wrapped_fetch cfg env req s)) = refreshPromise s)"
proof -
  have 1: "shouldRefreshToken cfg b s =
           (False, (emit (OriginalFetch logout_request) s)\<lparr>logoutChains := logoutChains s + 1\<rparr>)"
    using assms by (simp add: shouldRefreshToken_def falsy_def)
  have 2: "issued s (expiredLogoutSettled b' NetworkError (snd (shouldRefreshToken cfg b s))) =
           [OriginalFetch logout_request, ClearAuthCookie, SetLocationHref (login_redirect b')]"
    by (simp add: 1 expiredLogoutSettled_def emit_def issued_def)
  have 3: "issued s (expiredLogoutSettled b' (Responded resp) (snd (shouldRefreshToken cfg b s))) =
           [OriginalFetch logout_request, SetLocationHref (login_redirect b')]"
    by (simp add: 1 expiredLogoutSettled_def emit_def issued_def)
  have 4: "\<not> is_excluded (url req) \<longrightarrow>
           fetch_start cfg b req s =
             (AwaitResponse, emit (OriginalFetch req) (snd (shouldRefreshToken cfg b s)))"
    by (simp add: 1 fetch_start_def)
  have 5: "promises (snd (shouldRefreshToken cfg b s)) = promises s"
    and 6: "isRefreshing (snd (shouldRefreshToken cfg b s)) = isRefreshing s"
    and 7: "refreshPromise (snd (shouldRefreshToken cfg b s)) = refreshPromise s"
    by (simp_all add: 1 emit_def)
  have 8: "\<not> is_excluded (url req) \<and> start_browser env = b \<and>
          (\<forall>resp t. first_result env = Responded resp \<and> status resp = 401 \<and>
             pathname (response_browser env) \<noteq> ''/login'' \<and> body_text resp = Some t \<longrightarrow>
             \<not> has_marker t) \<longrightarrow>
            issued s (snd (wrapped_fetch cfg env req s)) =
              [OriginalFetch logout_request, OriginalFetch req] \<and>
            promises (snd (wrapped_fetch cfg env req s)) = promises s \<and>
            isRefreshing (snd (wrapped_fetch cfg env req s)) = isRefreshing s \<and>
            refreshPromise (snd (wrapped_fetch cfg env req s)) = refreshPromise s"
  proof
    assume h: "\<not> is_excluded (url req) \<and> start_browser env = b \<and>
          (\<forall>resp t. first_result env = Responded resp \<and> status resp = 401 \<and>
             pathname (response_browser env) \<noteq> ''/login'' \<and> body_text resp = Some t \<longrightarrow>
             \<not> has_marker t)"
    let ?s1 = "emit (OriginalFetch req) (snd (shouldRefreshToken cfg b s))"
    have st: "fetch_start cfg (start_browser env) req s = (AwaitResponse, ?s1)"
      using 4 h by simp
    have "snd (wrapped_fetch cfg env req s) = ?s1"
      using no_renewal_unless_marked_401 [OF st] h by blast
    then show "issued s (snd (wrapped_fetch cfg env req s)) =
              [OriginalFetch logout_request, OriginalFetch req] \<and>
            promises (snd (wrapped_fetch cfg env req s)) = promises s \<and>
            isRefreshing (snd (wrapped_fetch cfg env req s)) = isRefreshing s \<and>
            refreshPromise (snd (wrapped_fetch cfg env req s)) = refreshPromise s"
      by (simp add: 1 emit_def issued_def)
  qed
  show ?thesis
    by (rule conjI [OF 1 conjI [OF 2 conjI [OF 3 conjI [OF 5 conjI [OF 6 conjI [OF 7
        conjI [OF 4 8]]]]]]])
qed

text \<open>
  The scenario of the specification: eight days after a credential renewable for seven was
  issued, the check answers false and the logout call is the one effect so far.
\<close>

theorem expired_refresh_token_terminates_witness:
  "shouldRefreshToken sample_config
     (browser_at (Some (credential 1700000000000 1700604800000)) 1700691200000 ''/play'')
     initial_state =
   (False, initial_state\<lparr>effects := [OriginalFetch logout_request], logoutChains := 1\<rparr>)"
  using expired_refresh_token_terminates
    [of "browser_at (Some (credential 1700000000000 1700604800000)) 1700691200000 ''/play''"
        "credential 1700000000000 1700604800000" 1700000000000 1700604800000
        sample_config initial_state]
  by (simp add: browser_at_def credential_def emit_def initial_state_def)

text \<open>
  The claim as stated fails in two ways.  A record whose timestamp is zero carries both
  fields and its refresh token has expired, yet the check returns without any effect.
  And with an expired refresh token the same wrapped call does make a renewal call when
  its request is answered by a 401 that names a marker: after the logout call and the
  request come the renewal call and, the renewal being rejected, the coordinator's own
  logout call and redirect.
\<close>

theorem expired_zero_timestamp_counterexample:
  "shouldRefreshToken sample_config
     (browser_at (Some (credential 0 1700604800000)) 1700691200000 ''/play'') initial_state =
   (False, initial_state) \<and> effects initial_state = [] \<and>
   fst (shouldRefreshToken sample_config (start_browser expired_env) initial_state) = False \<and>
   effects (snd (wrapped_fetch sample_config expired_env play_request initial_state)) =
     [OriginalFetch logout_request, OriginalFetch play_request, OriginalFetch refresh_request,
      OriginalFetch logout_request, SetLocationHref ''/login?redirect=%2Fplay'']"
  by code_simp

text \<open>
  Claim C9.  The expiry check never reads the page's path: with an expired refresh token
  it starts Session Termination on the login page as anywhere else, and the chain
  redirects whatever the page is when the logout call settles.  The coordinator's
  rejected-renewal path and the handling of a 401 do read it: on any other page a
  rejected renewal calls the logout endpoint and then redirects, a 401 goes on to the
  reading of its body, and a replay answered by 401 calls the logout endpoint and then
  redirects; on the login page each of the three returns at once with no effect.
\<close>

theorem termination_on_login_page:
  assumes "cookieAuth b = Some a" and "timestamp a = Some ts" and "refreshExpires a = Some rexp"
    and "ts \<noteq> 0" and "rexp \<noteq> 0" and "now b \<ge> rexp" and "pathname b = ''/login''"
    and "pathname b' = ''/login''" and "pathname c \<noteq> ''/login''"
  shows "issued s (snd (shouldRefreshToken cfg b s)) = [OriginalFetch logout_request] \<and>
         logoutChains (snd (shouldRefreshToken cfg b s)) = logoutChains s + 1 \<and>
         issued s (expiredLogoutSettled b' (Responded resp) (snd (shouldRefreshToken cfg b s))) =
           [OriginalFetch logout_request, SetLocationHref (login_redirect b')] \<and>
         shouldRefreshToken cfg (b\<lparr>pathname := q\<rparr>) s = shouldRefreshToken cfg b s \<and>
         (promise_at s p = Some AwaitingRefresh \<and> (status resp = 401 \<or> status resp = 403) \<longrightarrow>
            refreshResponded b p (Responded resp) s = settle p False s \<and>
            issued s (refreshResponded b p (Responded resp) s) = [] \<and>
            refreshResponded c p (Responded resp) s =
              (emit (OriginalFetch logout_request) s)
                \<lparr>promises := (promises s)[p := AwaitingLogout]\<rparr> \<and>
            issued s (refreshLogoutResponded c' p (Responded resp')
                        (refreshResponded c p (Responded resp) s)) =
              [OriginalFetch logout_request, SetLocationHref (login_redirect c')] \<and>
            issued s (refreshLogoutResponded c' p NetworkError
                        (refreshResponded c p (Responded resp) s)) =
              [OriginalFetch logout_request, ClearAuthCookie, SetLocationHref (login_redirect c')]) \<and>
         (status resp = 401 \<longrightarrow>
            after_response b (Responded resp) = Fulfilled resp \<and>
            after_response c (Responded resp) = AwaitText resp \<and>
            after_replay b resp0 (Responded resp) s = (Fulfilled resp, s) \<and>
            after_replay c resp0 (Responded resp) s =
              (AwaitLogout resp, emit (OriginalFetch logout_request) s) \<and>
            issued s (snd (after_logout c' resp (Responded resp')
                             (snd (after_replay c resp0 (Responded resp) s)))) =
              [OriginalFetch logout_request, SetLocationHref (login_redirect c')] \<and>
            issued s (snd (after_logout c' resp NetworkError
                             (snd (after_replay c resp0 (Responded resp) s)))) =
              [OriginalFetch logout_request, ClearAuthCookie, SetLocationHref (login_redirect c')])"
proof -
  have 1: "shouldRefreshToken cfg b s =
           (False, (emit (OriginalFetch logout_request) s)\<lparr>logoutChains := logoutChains s + 1\<rparr>)"
    using assms by (simp add: shouldRefreshToken_def falsy_def)
  have 2: "issued s (snd (shouldRefreshToken cfg b s)) = [OriginalFetch logout_request]"
    by (simp add: 1 emit_def issued_def)
  have 3: "logoutChains (snd (shouldRefreshToken cfg b s)) = logoutChains s + 1"
    by (simp add: 1)
  have 4: "issued s (expiredLogoutSettled b' (Responded resp) (snd (shouldRefreshToken cfg b s))) =
           [OriginalFetch logout_request, SetLocationHref (login_redirect b')]"
    by (simp add: 1 expiredLogoutSettled_def emit_def issued_def)
  have 5: "shouldRefreshToken cfg (b\<lparr>pathname := q\<rparr>) s = shouldRefreshToken cfg b s"
    by (simp add: shouldRefreshToken_def split: option.splits)
  have 6: "promise_at s p = Some AwaitingRefresh \<and> (status resp = 401 \<or> status resp = 403) \<longrightarrow>
            refreshResponded b p (Responded resp) s = settle p False s \<and>
            issued s (refreshResponded b p (Responded resp) s) = [] \<and>
            refreshResponded c p (Responded resp) s =
              (emit (OriginalFetch logout_request) s)
                \<lparr>promises := (promises s)[p := AwaitingLogout]\<rparr> \<and>
            issued s (refreshLogoutResponded c' p (Responded resp')
                        (refreshResponded c p (Responded resp) s)) =
              [OriginalFetch logout_request, SetLocationHref (login_redirect c')] \<and>
            issued s (refreshLogoutResponded c' p NetworkError
                        (refreshResponded c p (Responded resp) s)) =
              [OriginalFetch logout_request, ClearAuthCookie, SetLocationHref (login_redirect c')]"
  proof
    assume h: "promise_at s p = Some AwaitingRefresh \<and> (status resp = 401 \<or> status resp = 403)"
    then have p: "p < length (promises s)"
      by (auto simp: promise_at_def split: if_splits)
    have nok: "\<not> ok resp" using h by (auto simp: ok_def)
    have on: "refreshResponded b p (Responded resp) s = settle p False s"
      using h nok assms(7) by (auto simp: refreshResponded_def)
    have off: "refreshResponded c p (Responded resp) s =
        (emit (OriginalFetch logout_request) s)\<lparr>promises := (promises s)[p := AwaitingLogout]\<rparr>"
      using h nok assms(9) by (auto simp: refreshResponded_def)
    have waiting: "promise_at ((emit (OriginalFetch logout_request) s)
        \<lparr>promises := (promises s)[p := AwaitingLogout]\<rparr>) p = Some AwaitingLogout"
      using p by (simp add: promise_at_def)
    show "refreshResponded b p (Responded resp) s = settle p False s \<and>
            issued s (refreshResponded b p (Responded resp) s) = [] \<and>
            refreshResponded c p (Responded resp) s =
              (emit (OriginalFetch logout_request) s)
                \<lparr>promises := (promises s)[p := AwaitingLogout]\<rparr> \<and>
            issued s (refreshLogoutResponded c' p (Responded resp')
                        (refreshResponded c p (Responded resp) s)) =
              [OriginalFetch logout_request, SetLocationHref (login_redirect c')] \<and>
            issued s (refreshLogoutResponded c' p NetworkError
                        (refreshResponded c p (Responded resp) s)) =
              [OriginalFetch logout_request, ClearAuthCookie, SetLocationHref (login_redirect c')]"
      unfolding on off using waiting
      by (simp add: refreshLogoutResponded_def settle_def emit_def issued_def)
  qed
  have 7: "status resp = 401 \<longrightarrow>
            after_response b (Responded resp) = Fulfilled resp \<and>
            after_response c (Responded resp) = AwaitText resp \<and>
            after_replay b resp0 (Responded resp) s = (Fulfilled resp, s) \<and>
            after_replay c resp0 (Responded resp) s =
              (AwaitLogout resp, emit (OriginalFetch logout_request) s) \<and>
            issued s (snd (after_logout c' resp (Responded resp')
                             (snd (after_replay c resp0 (Responded resp) s)))) =
              [OriginalFetch logout_request, SetLocationHref (login_redirect c')] \<and>
            issued s (snd (after_logout c' resp NetworkError
                             (snd (after_replay c resp0 (Responded resp) s)))) =
              [OriginalFetch logout_request, ClearAuthCookie, SetLocationHref (login_redirect c')]"
    using assms(7,9)
    by (simp add: after_response_def after_replay_def after_logout_def emit_def issued_def)
  show ?thesis
    by (rule conjI [OF 2 conjI [OF 3 conjI [OF 4 conjI [OF 5 conjI [OF 6 7]]]]])
qed

text \<open>
  On the login page a week and a day after the credential was issued: the expiry check
  calls the logout endpoint and its chain redirects.  A renewal rejected with 401 is
  settled at once on the login page, and calls the logout endpoint on the page \<open>/play\<close>.
\<close>

theorem termination_on_login_page_witness:
  "issued initial_state
     (expiredLogoutSettled (browser_at None 1700691200001 ''/login'')
        (Responded unauthorized_response)
        (snd (shouldRefreshToken sample_config
           (browser_at (Some (credential 1700000000000 1700604800000)) 1700691200000 ''/login'')
           initial_state))) =
   [OriginalFetch logout_request, SetLocationHref ''/login?redirect=%2Flogin''] \<and>
   issued renewing_state
     (refreshResponded
        (browser_at (Some (credential 1700000000000 1700604800000)) 1700691200000 ''/login'')
        0 (Responded unauthorized_response) renewing_state) = [] \<and>
   issued renewing_state
     (refreshResponded (session_browser 360000 ''/play'')
        0 (Responded unauthorized_response) renewing_state) = [OriginalFetch logout_request]"
proof -
  let ?b = "browser_at (Some (credential 1700000000000 1700604800000)) 1700691200000 ''/login''"
  let ?b' = "browser_at None 1700691200001 ''/login''"
  let ?c = "session_browser 360000 ''/play''"
  have h1: "cookieAuth ?b = Some (credential 1700000000000 1700604800000)" by code_simp
  have h2: "timestamp (credential 1700000000000 1700604800000) = Some 1700000000000" by code_simp
  have h3: "refreshExpires (credential 1700000000000 1700604800000) = Some 1700604800000"
    by code_simp
  have h4: "(1700000000000 :: int) \<noteq> 0" and h5: "(1700604800000 :: int) \<noteq> 0" by simp_all
  have h6: "now ?b \<ge> 1700604800000" by code_simp
  have h7: "pathname ?b = ''/login''" and h8: "pathname ?b' = ''/login''" by code_simp+
  have h9: "pathname ?c \<noteq> ''/login''" by code_simp
  note T = termination_on_login_page [OF h1 h2 h3 h4 h5 h6 h7 h8 h9,
      where s = initial_state and cfg = sample_config and resp = unauthorized_response]
  note U = termination_on_login_page [OF h1 h2 h3 h4 h5 h6 h7 h8 h9,
      where s = renewing_state and cfg = sample_config and resp = unauthorized_response
        and p = 0]
  have e: "login_redirect ?b' = ''/login?redirect=%2Flogin''" by code_simp
  have p: "promise_at renewing_state 0 = Some AwaitingRefresh" by code_simp
  have st: "status unauthorized_response = 401" by code_simp
  have off: "issued renewing_state
      ((emit (OriginalFetch logout_request) renewing_state)
         \<lparr>promises := (promises renewing_state)[0 := AwaitingLogout]\<rparr>) =
      [OriginalFetch logout_request]"
    by (simp add: issued_def emit_def)
  from T e have first:
    "issued initial_state
       (expiredLogoutSettled ?b' (Responded unauthorized_response)
          (snd (shouldRefreshToken sample_config ?b initial_state))) =
     [OriginalFetch logout_request, SetLocationHref ''/login?redirect=%2Flogin'']"
    by simp
  from U p st have second:
    "issued renewing_state (refreshResponded ?b 0 (Responded unauthorized_response) renewing_state)
       = [] \<and>
     refreshResponded ?c 0 (Responded unauthorized_response) renewing_state =
       (emit (OriginalFetch logout_request) renewing_state)
         \<lparr>promises := (promises renewing_state)[0 := AwaitingLogout]\<rparr>"
    by blast
  from first second off show ?thesis by simp
qed

section \<open>The renewal coordinator: properties\<close>

lemma refresh_not_logout: "refresh_request \<noteq> logout_request"
  by (simp add: refresh_request_def logout_request_def)

lemma outcome_emit [simp]: "outcome (emit e s) p = outcome s p"
  by (simp add: outcome_def)

text \<open>A resolved promise keeps its value, whatever runs later.\<close>

lemma outcome_step:
  assumes "outcome s p = Some v"
  shows "outcome (snd (coordinator_step e s)) p = Some v"
proof -
  from assms have p: "p < length (promises s)" "promises s ! p = Resolved v"
    by (auto simp: outcome_def promise_at_def split: if_splits promise_state.splits)
  show ?thesis
  proof (cases e)
    case CallRefreshToken
    then show ?thesis using p
      by (auto simp: refreshToken_def startRefresh_def outcome_def promise_at_def emit_def nth_append
          split: option.splits)
  next
    case (RefreshResponds b q r)
    then show ?thesis using p
      by (auto simp: refreshResponded_def settle_def outcome_def promise_at_def emit_def
          nth_list_update split: fetch_result.splits)
  next
    case (LogoutResponds b q r)
    then show ?thesis using p
      by (auto simp: refreshLogoutResponded_def settle_def outcome_def promise_at_def emit_def
          nth_list_update split: fetch_result.splits)
  qed
qed

lemma run_events_Cons_snd:
  "snd (run_events (e # es) s) = snd (run_events es (snd (coordinator_step e s)))"
  by (simp split: prod.splits)

lemma outcome_run:
  assumes "outcome s p = Some v"
  shows "outcome (snd (run_events es s)) p = Some v"
  using assms
proof (induction es arbitrary: s)
  case Nil
  then show ?case by simp
next
  case (Cons e es)
  have "outcome (snd (run_events es (snd (coordinator_step e s)))) p = Some v"
    by (rule Cons.IH [OF outcome_step [OF Cons.prems]])
  then show ?case by (simp only: run_events_Cons_snd)
qed

lemma run_events_append:
  "snd (run_events (es @ es') s) = snd (run_events es' (snd (run_events es s)))"
proof (induction es arbitrary: s)
  case Nil
  show ?case by simp
next
  case (Cons e es)
  show ?case by (simp only: append_Cons run_events_Cons_snd Cons.IH)
qed

text \<open>One event while a renewal is pending before it and after it.\<close>

lemma pending_step:
  assumes "isRefreshing s" and "refreshPromise s = Some p0"
    and "coordinator_step e s = (h, s1)"
    and "isRefreshing s1" and "refreshPromise s1 \<noteq> None"
  shows "refreshPromise s1 = Some p0 \<and>
         h = (if e = CallRefreshToken then Some p0 else None) \<and>
         (\<exists>xs. effects s1 = effects s @ xs \<and> OriginalFetch refresh_request \<notin> set xs) \<and>
         length (promises s1) = length (promises s)"
proof (cases e)
  case CallRefreshToken
  then show ?thesis using assms by (auto simp: refreshToken_def)
next
  case (RefreshResponds b q r)
  then show ?thesis using assms refresh_not_logout
    by (auto simp: refreshResponded_def settle_def emit_def split: fetch_result.splits if_splits)
next
  case (LogoutResponds b q r)
  then show ?thesis using assms
    by (auto simp: refreshLogoutResponded_def settle_def emit_def split: fetch_result.splits if_splits)
qed

lemma pending_run:
  assumes "isRefreshing s" and "refreshPromise s = Some p0"
    and "pending_throughout es s" and "run_events es s = (hs, s')"
  shows "(\<forall>h\<in>set hs. h = p0) \<and> length hs = count_list es CallRefreshToken \<and>
         isRefreshing s' \<and> refreshPromise s' = Some p0 \<and>
         (\<exists>xs. effects s' = effects s @ xs \<and> OriginalFetch refresh_request \<notin> set xs) \<and>
         length (promises s') = length (promises s)"
  using assms
proof (induction es arbitrary: s hs)
  case Nil
  then show ?case by simp
next
  case (Cons e es)
  obtain h s1 where st: "coordinator_step e s = (h, s1)" by (cases "coordinator_step e s")
  obtain hs1 where run1: "run_events es s1 = (hs1, s')"
    using Cons.prems(4) st by (auto split: prod.splits)
  have hs: "hs = (case h of None \<Rightarrow> hs1 | Some p \<Rightarrow> p # hs1)"
    using Cons.prems(4) st run1 by simp
  have pend: "isRefreshing s1" "refreshPromise s1 \<noteq> None" "pending_throughout es s1"
    using Cons.prems(3) st by simp_all
  note one = pending_step [OF Cons.prems(1,2) st pend(1,2)]
  from one have p1: "refreshPromise s1 = Some p0" by simp
  note rest = Cons.IH [OF pend(1) p1 pend(3) run1]
  from one rest hs show ?case by (cases "e = CallRefreshToken") auto
qed

text \<open>
  Claim C1.  No renewal is pending (the code's own test), and from then on callers call
  \<open>refreshToken\<close> while the calls of the renewal settle or not, in any order, such that a
  renewal is pending after every event.  Then one renewal call is issued in all; every
  caller, however many, is handed the same promise, the one made for the first; and all
  of them observe the same outcome: the promise resolves to one value whatever the
  network answers, and a resolved value never changes.
\<close>

theorem single_flight:
  assumes "\<not> (isRefreshing s \<and> refreshPromise s \<noteq> None)"
    and "es \<noteq> []" and "pending_throughout es s" and "run_events es s = (hs, s')"
  shows "count_effect (OriginalFetch refresh_request) (issued s s') = 1 \<and>
         hs \<noteq> [] \<and> length hs = count_list es CallRefreshToken \<and>
         (\<forall>h\<in>set hs. h = length (promises s)) \<and>
         (\<forall>env. \<exists>v. \<forall>h\<in>set hs. fst (await_refresh env h s') = Some v) \<and>
         (\<forall>h\<in>set hs. \<forall>es2 es3 v. outcome (snd (run_events es2 s')) h = Some v \<longrightarrow>
            outcome (snd (run_events (es2 @ es3) s')) h = Some v)"
proof -
  obtain e es1 where es: "es = e # es1" using assms(2) by (cases es) auto
  obtain h s1 where st: "coordinator_step e s = (h, s1)" by (cases "coordinator_step e s")
  obtain hs1 where run1: "run_events es1 s1 = (hs1, s')"
    using assms(4) st es by (auto split: prod.splits)
  have hs: "hs = (case h of None \<Rightarrow> hs1 | Some p \<Rightarrow> p # hs1)"
    using assms(4) st run1 es by simp
  have pend: "isRefreshing s1" "refreshPromise s1 \<noteq> None" "pending_throughout es1 s1"
    using assms(3) st es by simp_all
  let ?p0 = "length (promises s)"
  have call: "e = CallRefreshToken"
  proof (cases e)
    case CallRefreshToken
    then show ?thesis .
  next
    case (RefreshResponds b q r)
    then show ?thesis using assms(1) st pend(1,2)
      by (auto simp: refreshResponded_def settle_def emit_def split: fetch_result.splits if_splits)
  next
    case (LogoutResponds b q r)
    then show ?thesis using assms(1) st pend(1,2)
      by (auto simp: refreshLogoutResponded_def settle_def emit_def split: fetch_result.splits if_splits)
  qed
  have start: "h = Some ?p0" "s1 = snd (startRefresh s)"
    using call st assms(1) by (auto simp: refreshToken_def startRefresh_def split: option.splits)
  have s1: "refreshPromise s1 = Some ?p0" "effects s1 = effects s @ [OriginalFetch refresh_request]"
    "length (promises s1) = Suc ?p0"
    using start(2) by (simp_all add: startRefresh_def emit_def)
  note rest = pending_run [OF pend(1) s1(1) pend(3) run1]
  from rest obtain xs where xs: "effects s' = effects s1 @ xs" "OriginalFetch refresh_request \<notin> set xs"
    by blast
  have one: "count_effect (OriginalFetch refresh_request) (issued s s') = 1"
    using xs s1(2) by (simp add: issued_def count_effect_absent)
  have same: "\<forall>h\<in>set hs. h = ?p0" and n: "length hs = count_list es CallRefreshToken"
    and ne: "hs \<noteq> []"
    using rest hs start(1) es call by auto
  have len: "?p0 < length (promises s')" using rest s1(3) by simp
  have resolves: "\<forall>env. \<exists>v. \<forall>h\<in>set hs. fst (await_refresh env h s') = Some v"
  proof
    fix env
    obtain v where "fst (await_refresh env ?p0 s') = Some v"
      using await_refresh_resolves [OF len] by blast
    with same show "\<exists>v. \<forall>h\<in>set hs. fst (await_refresh env h s') = Some v" by auto
  qed
  have stable: "\<forall>h\<in>set hs. \<forall>es2 es3 v. outcome (snd (run_events es2 s')) h = Some v \<longrightarrow>
            outcome (snd (run_events (es2 @ es3) s')) h = Some v"
    by (simp add: run_events_append outcome_run)
  from one ne n same resolves stable show ?thesis by blast
qed


text \<open>
  Three callers from the initial state, the renewal rejected in between: each is handed
  promise 0 and the renewal endpoint is called once.
\<close>

theorem single_flight_witness:
  "fst (run_events three_callers initial_state) = [0, 0, 0] \<and>
   count_effect (OriginalFetch refresh_request)
     (issued initial_state (snd (run_events three_callers initial_state))) = 1"
proof -
  have h1: "\<not> (isRefreshing initial_state \<and> refreshPromise initial_state \<noteq> None)"
    by code_simp
  have h2: "three_callers \<noteq> []" by code_simp
  have h3: "pending_throughout three_callers initial_state" by code_simp
  have h4: "run_events three_callers initial_state =
      (fst (run_events three_callers initial_state), snd (run_events three_callers initial_state))"
    by simp
  have hs: "fst (run_events three_callers initial_state) = [0, 0, 0]" by code_simp
  from single_flight [OF h1 h2 h3 h4] hs show ?thesis by simp
qed

lemma settle_fields:
  "isRefreshing (settle p v s) = False" "refreshPromise (settle p v s) = None"
  "promises (settle p v s) = (promises s)[p := Resolved v]" "effects (settle p v s) = effects s"
  by (simp_all add: settle_def)

lemma emit_fields:
  "isRefreshing (emit e s) = isRefreshing s" "refreshPromise (emit e s) = refreshPromise s"
  "promises (emit e s) = promises s"
  by (simp_all add: emit_def)

text \<open>
  Claim C7.  A renewal in flight is run to its settlement, whatever its calls answer: the
  promise resolves (to true for a response that is ok, to false for any other response
  and for a network error), the flag is false and \<open>refreshPromise\<close> is null.  A call of
  \<open>refreshToken\<close> after that makes a new promise and calls the renewal endpoint again.
  Under any interleaving, the event that makes a result observable is one that leaves the
  flag false and \<open>refreshPromise\<close> null.
\<close>

theorem in_flight_handle_cleared:
  assumes "promise_at s p = Some AwaitingRefresh" and "await_refresh env p s = (v, s')"
  shows "v = Some (case refresh_result env of NetworkError \<Rightarrow> False | Responded resp \<Rightarrow> ok resp) \<and>
         outcome s' p = v \<and> \<not> isRefreshing s' \<and> refreshPromise s' = None \<and>
         fst (refreshToken s') = length (promises s') \<and> fst (refreshToken s') \<noteq> p \<and>
         issued s' (snd (refreshToken s')) = [OriginalFetch refresh_request] \<and>
         promise_at (snd (refreshToken s')) (fst (refreshToken s')) = Some AwaitingRefresh \<and>
         (\<forall>ev s0 q w. outcome s0 q = None \<and> outcome (snd (coordinator_step ev s0)) q = Some w \<longrightarrow>
            \<not> isRefreshing (snd (coordinator_step ev s0)) \<and>
            refreshPromise (snd (coordinator_step ev s0)) = None)"
proof -
  from assms(1) have p: "p < length (promises s)" "promises s ! p = AwaitingRefresh"
    by (auto simp: promise_at_def split: if_splits)
  let ?b = "case refresh_result env of NetworkError \<Rightarrow> False | Responded resp \<Rightarrow> ok resp"
  let ?s1 = "refreshResponded (refresh_browser env) p (refresh_result env) s"
  have v: "v = outcome s' p"
    and s': "s' = refreshLogoutResponded (refresh_logout_browser env) p (refresh_logout_result env) ?s1"
    using assms(2) by (auto simp: await_refresh_def Let_def)
  have "?s1 = settle p ?b s \<or>
      (\<not> ?b \<and> ?s1 = (emit (OriginalFetch logout_request) s)
                        \<lparr>promises := (promises s)[p := AwaitingLogout]\<rparr>)"
    using assms(1) by (cases "refresh_result env") (auto simp: refreshResponded_def)
  then consider (finished) "?s1 = settle p ?b s"
    | (logout) "\<not> ?b" "?s1 = (emit (OriginalFetch logout_request) s)
                                \<lparr>promises := (promises s)[p := AwaitingLogout]\<rparr>"
    by blast
  then have settled: "v = Some ?b \<and> outcome s' p = v \<and> \<not> isRefreshing s' \<and>
      refreshPromise s' = None \<and> length (promises s') = length (promises s)"
  proof cases
    case finished
    have "promise_at ?s1 p = Some (Resolved ?b)"
      using p(1) by (simp add: finished promise_at_settle)
    then have "s' = settle p ?b s"
      using s' finished by (simp add: refreshLogoutResponded_def)
    then show ?thesis unfolding v using p(1)
      by (simp add: outcome_def promise_at_settle settle_fields)
  next
    case logout
    let ?x = "emit (SetLocationHref (login_redirect (refresh_logout_browser env)))
           (case refresh_logout_result env of NetworkError \<Rightarrow> emit ClearAuthCookie ?s1
            | Responded x \<Rightarrow> ?s1)"
    have "promise_at ?s1 p = Some AwaitingLogout"
      using p(1) by (simp add: logout(2) promise_at_def emit_fields)
    then have s'eq: "s' = settle p False ?x"
      using s' by (simp add: refreshLogoutResponded_def)
    have lenx: "length (promises ?x) = length (promises s)"
      by (simp add: logout(2) emit_fields split: fetch_result.splits)
    show ?thesis unfolding v s'eq using p(1) logout(1) lenx
      by (simp add: outcome_def promise_at_settle settle_fields)
  qed
  then have fresh: "refreshToken s' = startRefresh s'"
    by (simp add: refreshToken_def)
  have again: "fst (refreshToken s') = length (promises s') \<and> fst (refreshToken s') \<noteq> p \<and>
      issued s' (snd (refreshToken s')) = [OriginalFetch refresh_request] \<and>
      promise_at (snd (refreshToken s')) (fst (refreshToken s')) = Some AwaitingRefresh"
    using settled p(1)
    by (auto simp: fresh startRefresh_def issued_def emit_def promise_at_def nth_append)
  have order: "\<forall>ev s0 q w. outcome s0 q = None \<and> outcome (snd (coordinator_step ev s0)) q = Some w \<longrightarrow>
      \<not> isRefreshing (snd (coordinator_step ev s0)) \<and>
      refreshPromise (snd (coordinator_step ev s0)) = None"
  proof (intro allI impI)
    fix ev s0 q w
    assume h: "outcome s0 q = None \<and> outcome (snd (coordinator_step ev s0)) q = Some w"
    show "\<not> isRefreshing (snd (coordinator_step ev s0)) \<and>
      refreshPromise (snd (coordinator_step ev s0)) = None"
    proof (cases ev)
      case CallRefreshToken
      then show ?thesis using h
        by (auto simp: refreshToken_def startRefresh_def outcome_def promise_at_def emit_def
            nth_append split: option.splits if_splits promise_state.splits)
    next
      case (RefreshResponds b r x)
      then show ?thesis using h
        by (auto simp: refreshResponded_def settle_def outcome_def promise_at_def emit_def
            nth_list_update split: fetch_result.splits if_splits promise_state.splits)
    next
      case (LogoutResponds b r x)
      then show ?thesis using h
        by (auto simp: refreshLogoutResponded_def settle_def outcome_def promise_at_def emit_def
            nth_list_update split: fetch_result.splits if_splits promise_state.splits)
    qed
  qed
  from settled again order show ?thesis by blast
qed

text \<open>
  A first renewal fails at the network: it resolves to false, the variables are cleared,
  and the next call of \<open>refreshToken\<close> is handed promise 1 and calls the endpoint anew.
\<close>

theorem in_flight_handle_cleared_witness:
  "fst (await_refresh (sample_refresh_env NetworkError (session_browser 360000 ''/play'')) 0
          renewing_state) = Some False \<and>
   fst (refreshToken (snd (await_refresh
          (sample_refresh_env NetworkError (session_browser 360000 ''/play'')) 0 renewing_state))) = 1"
proof -
  let ?env = "sample_refresh_env NetworkError (session_browser 360000 ''/play'')"
  have h1: "promise_at renewing_state 0 = Some AwaitingRefresh" by code_simp
  have h2: "await_refresh ?env 0 renewing_state =
      (fst (await_refresh ?env 0 renewing_state), snd (await_refresh ?env 0 renewing_state))"
    by simp
  have r: "refresh_result ?env = NetworkError" by code_simp
  have n: "length (promises (snd (await_refresh ?env 0 renewing_state))) = 1" by code_simp
  from in_flight_handle_cleared [OF h1 h2] r n show ?thesis by simp
qed

section \<open>The credential reader: properties\<close>

lemma hexValue_hexDigit_all: "\<forall>d\<in>{..<16}. hexValue (hexDigit d) = Some d"
  by code_simp

lemma hexValue_hexDigit: "d < 16 \<Longrightarrow> hexValue (hexDigit d) = Some d"
  using hexValue_hexDigit_all by simp

lemma of_char_less_256: "(of_char c :: nat) < 256"
  by (metis of_char_mod_256 mod_less_divisor zero_less_numeral)

lemma percent_reserved: "\<not> uriUnescaped CHR ''%''"
  by (simp add: uriUnescaped_def)

lemma uriUnescaped_ascii: "uriUnescaped c \<Longrightarrow> (of_char c :: nat) < 128"
  by (auto simp: uriUnescaped_def Let_def)

lemma uri_tokens_escape:
  "uri_tokens (percentEscape c @ rest) = map_option (Cons (Escape (of_char c))) (uri_tokens rest)"
proof -
  let ?n = "of_char c :: nat"
  have "?n div 16 < 16"
    by (rule less_mult_imp_div_less) (use of_char_less_256 [of c] in simp)
  moreover have "?n mod 16 < 16" by simp
  ultimately show ?thesis
    by (simp add: percentEscape_def Let_def hexValue_hexDigit)
qed

lemma uri_tokens_encode:
  "uri_tokens (encodeURIComponent s) = Some (map uri_token_of s)"
proof (induction s)
  case Nil
  show ?case by (simp add: encodeURIComponent_def)
next
  case (Cons c s)
  show ?case
  proof (cases "uriUnescaped c")
    case True
    then have "c \<noteq> CHR ''%''" using percent_reserved by auto
    with True Cons show ?thesis by (simp add: encodeURIComponent_def uri_token_of_def)
  next
    case False
    have "encodeURIComponent (c # s) = percentEscape c @ encodeURIComponent s"
      using False by (simp add: encodeURIComponent_def)
    with False Cons show ?thesis by (simp add: uri_tokens_escape uri_token_of_def)
  qed
qed


lemma escaped_bytes_map:
  "escaped_bytes (map (\<lambda>c. Escape (of_char c)) cs) = Some (map of_char cs)"
  by (induction cs) simp_all

lemma uri_token_of_high: "\<not> (of_char c :: nat) < 128 \<Longrightarrow> uri_token_of c = Escape (of_char c)"
  using uriUnescaped_ascii by (auto simp: uri_token_of_def)

lemma utf8_sequence_high:
  "utf8_sequence b (map of_char cs) \<Longrightarrow> c \<in> set cs \<Longrightarrow> \<not> (of_char c :: nat) < 128"
  by (auto simp: utf8_sequence_def list_all_iff)

lemma utf8_sequence_length:
  "utf8_sequence b bs \<Longrightarrow> length bs = utf8_length b - 1"
  by (auto simp: utf8_sequence_def split: list.splits)

lemma uri_assemble_Escape_high:
  assumes "\<not> b < 128" and "k = utf8_length b - 1" and "escaped_bytes (take k ts) = Some bs"
    and "utf8_sequence b bs" and "uri_assemble (drop k ts) = Some r"
  shows "uri_assemble (Escape b # ts) = Some (map char_of (b # bs) @ r)"
  using assms by simp

lemma map_char_of_of_char: "map char_of (map (of_char :: char \<Rightarrow> nat) cs) = cs"
  by (induction cs) simp_all

lemma uri_assemble_encode:
  "wf_utf8 s \<Longrightarrow> uri_assemble (map uri_token_of s) = Some s"
proof (induction s rule: wf_utf8.induct)
  case 1
  show ?case by simp
next
  case (2 c cs)
  show ?case
  proof (cases "(of_char c :: nat) < 128")
    case True
    with 2 have "uri_assemble (map uri_token_of cs) = Some cs" by simp
    with True show ?thesis by (simp add: uri_token_of_def [of c])
  next
    case False
    define k where "k = utf8_length (of_char c) - 1"
    from False "2.prems" have seq: "utf8_sequence (of_char c) (map of_char (take k cs))"
      and rest: "wf_utf8 (drop k cs)" by (simp_all add: k_def)
    have IH: "uri_assemble (map uri_token_of (drop k cs)) = Some (drop k cs)"
      using "2.IH"(2) [OF False] rest by (simp add: k_def)
    have high: "map uri_token_of (take k cs) = map (\<lambda>c. Escape (of_char c)) (take k cs)"
      using utf8_sequence_high [OF seq] by (auto intro: uri_token_of_high)
    have tk: "escaped_bytes (take k (map uri_token_of cs)) = Some (map of_char (take k cs))"
      by (simp only: take_map high escaped_bytes_map)
    have dr: "uri_assemble (drop k (map uri_token_of cs)) = Some (drop k cs)"
      by (simp only: drop_map IH)
    have "uri_assemble (Escape (of_char c) # map uri_token_of cs) =
        Some (map char_of ((of_char c :: nat) # map of_char (take k cs)) @ drop k cs)"
      by (rule uri_assemble_Escape_high [OF False k_def tk seq dr])
    also have "map char_of ((of_char c :: nat) # map of_char (take k cs)) @ drop k cs = c # cs"
      by (simp add: map_char_of_of_char)
    finally show ?thesis by (simp only: list.map uri_token_of_high [OF False])
  qed
qed

lemma decode_encode: "wf_utf8 s \<Longrightarrow> decodeURIComponent (encodeURIComponent s) = Some s"
  by (simp add: decodeURIComponent_def uri_tokens_encode uri_assemble_encode)


lemma uri_tokens_literal:
  "CHR ''%'' \<notin> set s \<Longrightarrow> uri_tokens s = Some (map Literal s)"
  by (induction s) auto

lemma uri_assemble_literal: "uri_assemble (map Literal s) = Some s"
  by (induction s) simp_all

lemma decode_plain: "CHR ''%'' \<notin> set s \<Longrightarrow> decodeURIComponent s = Some s"
  by (simp add: decodeURIComponent_def uri_tokens_literal uri_assemble_literal)

lemma str_includes_char: "str_includes s [c] \<longleftrightarrow> c \<in> set s"
  by (induction s) auto

lemma wf_utf8_ascii: "\<forall>c\<in>set s. (of_char c :: nat) < 128 \<Longrightarrow> wf_utf8 s"
  by (induction s) simp_all

lemma hexDigit_ascii_all: "\<forall>d\<in>{..<16}. (of_char (hexDigit d) :: nat) < 128"
  by code_simp

lemma percentEscape_ascii: "x \<in> set (percentEscape c) \<Longrightarrow> (of_char x :: nat) < 128"
proof -
  have "(of_char c :: nat) div 16 < 16"
    by (rule less_mult_imp_div_less) (use of_char_less_256 [of c] in simp)
  moreover have "(of_char c :: nat) mod 16 < 16" by simp
  ultimately show "x \<in> set (percentEscape c) \<Longrightarrow> (of_char x :: nat) < 128"
    using hexDigit_ascii_all by (auto simp: percentEscape_def Let_def)
qed

lemma encode_ascii: "x \<in> set (encodeURIComponent s) \<Longrightarrow> (of_char x :: nat) < 128"
  by (auto simp: encodeURIComponent_def uriUnescaped_ascii percentEscape_ascii split: if_splits)

lemma wf_utf8_encode: "wf_utf8 (encodeURIComponent s)"
  by (rule wf_utf8_ascii) (simp add: encode_ascii)

lemma encode_without_percent:
  "CHR ''%'' \<notin> set (encodeURIComponent s) \<Longrightarrow> encodeURIComponent s = s"
proof (induction s)
  case Nil
  show ?case by (simp add: encodeURIComponent_def)
next
  case (Cons c s)
  then show ?case
    by (cases "uriUnescaped c") (auto simp: encodeURIComponent_def percentEscape_def Let_def)
qed

lemma encode_nonempty: "s \<noteq> [] \<Longrightarrow> encodeURIComponent s \<noteq> []"
  by (cases s) (auto simp: encodeURIComponent_def percentEscape_def Let_def)

text \<open>
  Claim C8, as the code has it.  Let \<open>j\<close> be the JSON text of a credential record, so
  that \<open>JSON.parse\<close> of \<open>j\<close> is the record.  When \<open>j\<close> contains no percent sign,
  \<open>parseAuthInfo\<close> gives what \<open>JSON.parse\<close> gives on \<open>j\<close> (the record) for \<open>j\<close> itself and
  for \<open>j\<close> percent-encoded once; for \<open>j\<close> percent-encoded twice it does so whatever \<open>j\<close>
  contains.  A text with a percent sign, raw or encoded once, is left out: the reader
  cannot tell it from an encoded one.
\<close>

theorem decode_up_to_twice:
  assumes "wf_utf8 j" and "j \<noteq> []"
  shows "(CHR ''%'' \<notin> set j \<longrightarrow>
           parseAuthInfo JSON_parse (Some j) = JSON_parse j \<and>
           parseAuthInfo JSON_parse (Some (encodeURIComponent j)) = JSON_parse j) \<and>
         parseAuthInfo JSON_parse (Some (encodeURIComponent (encodeURIComponent j))) = JSON_parse j"
proof -
  let ?e = "encodeURIComponent j"
  have raw: "decodeAuthValue j = j" if "CHR ''%'' \<notin> set j"
    using that by (simp add: decodeAuthValue_def decode_plain str_includes_char)
  have once: "decodeAuthValue ?e = j" if "CHR ''%'' \<notin> set j"
    using that assms(1) by (simp add: decodeAuthValue_def decode_encode str_includes_char)
  have twice: "decodeAuthValue (encodeURIComponent ?e) = j"
  proof (cases "CHR ''%'' \<in> set ?e")
    case True
    then show ?thesis using assms(1)
      by (simp add: decodeAuthValue_def decode_encode wf_utf8_encode str_includes_char)
  next
    case False
    then show ?thesis using encode_without_percent [OF False]
      by (simp add: decodeAuthValue_def decode_plain str_includes_char)
  qed
  show ?thesis
    using assms(2) raw once twice encode_nonempty [of j] encode_nonempty [of ?e]
    by (simp add: parseAuthInfo_def)
qed

text \<open>
  With the parser that returns the text it is given, the reader shows what it hands to
  \<open>JSON.parse\<close>: the JSON text, for all three encodings.
\<close>

theorem decode_up_to_twice_witness:
  "parseAuthInfo Some (Some session_json) = Some session_json \<and>
   parseAuthInfo Some (Some (encodeURIComponent session_json)) = Some session_json \<and>
   parseAuthInfo Some (Some (encodeURIComponent (encodeURIComponent session_json))) =
     Some session_json"
proof -
  have h1: "wf_utf8 session_json" by code_simp
  have h2: "session_json \<noteq> []" by code_simp
  have h3: "CHR ''%'' \<notin> set session_json" by code_simp
  from decode_up_to_twice [OF h1 h2, of Some] h3 show ?thesis by simp
qed

text \<open>
  The claim as stated fails for a record whose JSON text contains a percent sign.  For the
  username \<open>50%\<close>, encoded once as a cookie is: the first decoding gives the JSON text,
  the second throws, and the reader falls back to the encoded value, which is what
  \<open>JSON.parse\<close> gets; no parser that rejects a text starting with a percent sign, as
  \<open>JSON.parse\<close> does, finds a record there.  For the username \<open>a%41\<close>, encoded once, the
  second decoding succeeds and \<open>JSON.parse\<close> gets the text of another record, with the
  username \<open>aA\<close>.
\<close>

theorem percent_sign_counterexample:
  "(\<forall>JSON_parse :: string \<Rightarrow> auth_info option.
      parseAuthInfo JSON_parse (Some (encodeURIComponent percent_json)) =
        JSON_parse ''%7B%22username%22%3A%2250%25%22%7D'') \<and>
   \<not> (\<exists>(JSON_parse :: string \<Rightarrow> auth_info option) r.
        (\<forall>s. JSON_parse (CHR ''%'' # s) = None) \<and>
        parseAuthInfo JSON_parse (Some (encodeURIComponent percent_json)) = Some r) \<and>
   (\<forall>JSON_parse :: string \<Rightarrow> auth_info option.
      parseAuthInfo JSON_parse (Some (encodeURIComponent escape_json)) =
        JSON_parse ''{\"username\":\"aA\"}'')"
proof -
  have e1: "decodeAuthValue (encodeURIComponent percent_json) =
      ''%7B%22username%22%3A%2250%25%22%7D''" by code_simp
  have n1: "encodeURIComponent percent_json \<noteq> []" by code_simp
  have e2: "decodeAuthValue (encodeURIComponent escape_json) = ''{\"username\":\"aA\"}''"
    by code_simp
  have n2: "encodeURIComponent escape_json \<noteq> []" by code_simp
  have a: "parseAuthInfo JSON_parse (Some (encodeURIComponent percent_json)) =
      JSON_parse ''%7B%22username%22%3A%2250%25%22%7D''" for JSON_parse :: "string \<Rightarrow> auth_info option"
    by (simp add: parseAuthInfo_def e1 n1)
  have b: "parseAuthInfo JSON_parse (Some (encodeURIComponent escape_json)) =
      JSON_parse ''{\"username\":\"aA\"}''" for JSON_parse :: "string \<Rightarrow> auth_info option"
    by (simp add: parseAuthInfo_def e2 n2)
  have c: "\<not> (\<exists>(JSON_parse :: string \<Rightarrow> auth_info option) r.
        (\<forall>s. JSON_parse (CHR ''%'' # s) = None) \<and>
        parseAuthInfo JSON_parse (Some (encodeURIComponent percent_json)) = Some r)"
    by (auto simp: a)
  from a b c show ?thesis by blast
qed

section \<open>The authorization header: properties\<close>

lemma code_points_ascii:
  "\<forall>c\<in>set s. (of_char c :: nat) < 128 \<Longrightarrow> code_points s = map (\<lambda>c. [c]) s"
  by (induction s) (simp_all add: utf8_length_def)

lemma concat_singletons: "concat (map (\<lambda>c. [c]) s) = s"
  by (induction s) simp_all

lemma is_space_single:
  "is_space [c] \<longleftrightarrow> (of_char c :: nat) \<in> {9, 10, 11, 12, 13, 32}"
proof -
  have "c = char_of (n :: nat) \<longleftrightarrow> (of_char c :: nat) = n" if "n < 256" for n
    using that by (metis char_of_nat of_char_of mod_less of_char_mod_256 char_of_char)
  then show ?thesis
    by (simp add: is_space_def js_whitespace_def)
qed

lemma is_line_terminator_single:
  "is_line_terminator [c] \<longleftrightarrow> (of_char c :: nat) \<in> {10, 13}"
proof -
  have "c = char_of (n :: nat) \<longleftrightarrow> (of_char c :: nat) = n" if "n < 256" for n
    using that by (metis char_of_nat of_char_of mod_less of_char_mod_256 char_of_char)
  then show ?thesis
    by (simp add: is_line_terminator_def line_terminators_def)
qed


lemma dropWhile_keep: "xs \<noteq> [] \<Longrightarrow> \<not> P (hd xs) \<Longrightarrow> dropWhile P xs = xs"
  by (cases xs) simp_all

lemma takeWhile_stop: "xs \<noteq> [] \<Longrightarrow> \<not> P (hd xs) \<Longrightarrow> takeWhile P xs = []"
  by (cases xs) simp_all

lemma is_space_blank: "is_space [CHR '' '']"
  by (simp add: is_space_single)

text \<open>Trimming removes blanks around a string that has none at its ends.\<close>

lemma trim_padded:
  assumes "\<forall>c\<in>set body. (of_char c :: nat) < 128" and "body \<noteq> []"
    and "\<not> is_space [hd body]" and "\<not> is_space [last body]"
  shows "trim (replicate a (CHR '' '') @ body @ replicate b (CHR '' '')) = body"
proof -
  let ?S = "map (\<lambda>c. [c])"
  let ?A = "?S (replicate a (CHR '' ''))" and ?B = "?S body" and ?C = "?S (replicate b (CHR '' ''))"
  have cp: "code_points (replicate a (CHR '' '') @ body @ replicate b (CHR '' '')) = ?A @ ?B @ ?C"
    using assms(1) by (subst code_points_ascii) auto
  have A: "\<And>u. u \<in> set ?A \<Longrightarrow> is_space u" and C: "\<And>u. u \<in> set (rev ?C) \<Longrightarrow> is_space u"
    using is_space_blank by auto
  have B: "?B \<noteq> []" "hd ?B = [hd body]" "rev ?B \<noteq> []" "hd (rev ?B) = [last body]"
    using assms(2) by (simp_all add: hd_map hd_rev last_map)
  have "dropWhile is_space (?A @ ?B @ ?C) = dropWhile is_space (?B @ ?C)"
    using A by (rule dropWhile_append2)
  also have "\<dots> = ?B @ ?C"
    using B(1,2) assms(3) by (intro dropWhile_keep) simp_all
  finally have front: "dropWhile is_space (?A @ ?B @ ?C) = ?B @ ?C" .
  have "dropWhile is_space (rev (?B @ ?C)) = dropWhile is_space (rev ?C @ rev ?B)"
    by simp
  also have "\<dots> = dropWhile is_space (rev ?B)"
    using C by (rule dropWhile_append2)
  also have "\<dots> = rev ?B"
    using B(3,4) assms(4) by (intro dropWhile_keep) simp_all
  finally have rear: "dropWhile is_space (rev (?B @ ?C)) = rev ?B" .
  show ?thesis
    unfolding trim_def cp front rear by (simp add: concat_singletons)
qed

lemma trim_token: "header_token t \<Longrightarrow> trim t = t"
  using trim_padded [of t 0 0] by (simp add: header_token_def list_all_iff)


lemma header_token_facts:
  assumes "header_token t"
  shows "t \<noteq> []" and "\<forall>c\<in>set t. (of_char c :: nat) < 128"
    and "\<forall>c\<in>set t. \<not> is_line_terminator [c]"
    and "\<not> is_space [hd t]" and "\<not> is_space [last t]"
  using assms by (auto simp: header_token_def list_all_iff is_line_terminator_single)

lemma ascii_lower_range:
  assumes "97 \<le> (of_char (ascii_lower c) :: nat)" and "(of_char (ascii_lower c) :: nat) \<le> 122"
  shows "65 \<le> (of_char c :: nat) \<and> (of_char c :: nat) \<le> 122"
  using assms by (cases "65 \<le> (of_char c :: nat) \<and> (of_char c :: nat) \<le> 90")
    (auto simp: ascii_lower_def Let_def)

lemma scheme_letters:
  assumes "map ascii_lower sch = kw" and "kw = ''bearer'' \<or> kw = ''token''" and "c \<in> set sch"
  shows "65 \<le> (of_char c :: nat) \<and> (of_char c :: nat) \<le> 122"
proof -
  have "ascii_lower c \<in> set kw" using assms(1,3) by auto
  then have "97 \<le> (of_char (ascii_lower c) :: nat) \<and> (of_char (ascii_lower c) :: nat) \<le> 122"
    using assms(2) by auto
  then show ?thesis using ascii_lower_range by blast
qed

text \<open>The keyword, blanks and a token: the group captured is the token.\<close>

lemma scheme_match_token:
  assumes "map ascii_lower sch = kw" and "0 < k" and "header_token t"
  shows "scheme_match kw (sch @ replicate k (CHR '' '') @ t) = Some t"
proof -
  let ?R = "replicate k (CHR '' '') @ t"
  let ?W = "replicate k [CHR '' '']" and ?T = "map (\<lambda>c. [c]) t"
  note tf = header_token_facts [OF assms(3)]
  have len: "length sch = length kw" using assms(1) by auto
  have tk: "take (length kw) (sch @ ?R) = sch" and dr: "drop (length kw) (sch @ ?R) = ?R"
    using len by simp_all
  have cp: "code_points ?R = ?W @ ?T"
    using tf(2) by (subst code_points_ascii) auto
  have T: "?T \<noteq> []" "\<not> is_space (hd ?T)" using tf(1,4) by (simp_all add: hd_map)
  have "takeWhile is_space (?W @ ?T) = ?W @ takeWhile is_space ?T"
    by (rule takeWhile_append2) (use is_space_blank in auto)
  then have tw: "takeWhile is_space (?W @ ?T) = ?W"
    using takeWhile_stop [of ?T is_space] T by simp
  have "dropWhile is_space (?W @ ?T) = dropWhile is_space ?T"
    by (rule dropWhile_append2) (use is_space_blank in auto)
  then have dw: "dropWhile is_space (?W @ ?T) = ?T"
    using dropWhile_keep [of ?T is_space] T by simp
  have W0: "?W \<noteq> []" using assms(2) by simp
  have lt: "list_all (\<lambda>u. \<not> is_line_terminator u) ?T"
    using tf(3) by (simp add: list_all_iff)
  have "scheme_match kw (sch @ ?R) =
      (let us = ?W @ ?T; ws = takeWhile is_space us; rest = dropWhile is_space us
       in if ws = [] then None
          else if rest \<noteq> [] then
            (if list_all (\<lambda>u. \<not> is_line_terminator u) rest then Some (concat rest) else None)
          else if 2 \<le> length ws \<and> \<not> is_line_terminator (last ws) then Some (last ws)
          else None)"
    unfolding scheme_match_def tk dr cp using assms(1) by (simp only: simp_thms if_True)
  also have "\<dots> = Some (concat ?T)"
    unfolding Let_def tw dw using W0 T(1) lt by (simp only: simp_thms if_True if_False)
  finally show ?thesis by (simp only: concat_singletons)
qed

lemma bearer_not_token:
  assumes "map ascii_lower sch = ''token''" and "0 < k"
  shows "scheme_match ''bearer'' (sch @ replicate k (CHR '' '') @ t) = None"
proof -
  obtain k' where k: "k = Suc k'" using assms(2) by (cases k) auto
  have len: "length sch = 5" using assms(1) by auto
  have "take (length ''bearer'') (sch @ replicate k (CHR '' '') @ t) = sch @ [CHR '' '']"
    using len k by simp
  then have "map ascii_lower (take (length ''bearer'') (sch @ replicate k (CHR '' '') @ t))
      \<noteq> ''bearer''"
    using assms(1) by simp
  then show ?thesis unfolding scheme_match_def by (simp only: if_False)
qed

lemma header_stripped:
  assumes "map ascii_lower sch = kw" and "kw = ''bearer'' \<or> kw = ''token''" and "0 < k"
    and "header_token t"
  shows "getAuthTokenFromHeader
           (replicate a (CHR '' '') @ (sch @ replicate k (CHR '' '') @ t) @ replicate b (CHR '' ''))
         = t"
proof -
  let ?body = "sch @ replicate k (CHR '' '') @ t"
  note tf = header_token_facts [OF assms(4)]
  have sch: "sch \<noteq> []" using assms(1,2) by auto
  note letters = scheme_letters [OF assms(1,2)]
  have ascii: "\<forall>c\<in>set ?body. (of_char c :: nat) < 128"
    using letters tf(2) by fastforce
  have first: "\<not> is_space [hd ?body]"
    using sch letters [of "hd sch"] by (simp add: is_space_single)
  have last: "\<not> is_space [last ?body]"
    using tf(1,5) by simp
  have body: "?body \<noteq> []" using sch by simp
  have tr: "trim (replicate a (CHR '' '') @ ?body @ replicate b (CHR '' '')) = ?body"
    by (rule trim_padded [OF ascii body first last])
  have m: "scheme_match kw ?body = Some t"
    by (rule scheme_match_token [OF assms(1,3,4)])
  have "(case scheme_match ''bearer'' ?body of
          Some g \<Rightarrow> trim g
        | None \<Rightarrow> (case scheme_match ''token'' ?body of Some g \<Rightarrow> trim g | None \<Rightarrow> ?body)) = t"
  proof (cases "kw = ''bearer''")
    case True
    then show ?thesis using m trim_token [OF assms(4)] by simp
  next
    case False
    then have kw: "kw = ''token''" using assms(2) by simp
    have "scheme_match ''bearer'' ?body = None"
      using bearer_not_token [OF _ assms(3)] assms(1) kw by simp
    then show ?thesis using m kw trim_token [OF assms(4)] by simp
  qed
  then show ?thesis
    unfolding getAuthTokenFromHeader_def tr Let_def using body by simp
qed

text \<open>
  Claim C10.  For every request, \<open>getAuthInfoFromCookie\<close> returns the value parsed from the
  Authorization header whenever the header is present and what \<open>getAuthTokenFromHeader\<close>
  makes of it parses to a record: a non-null value that passes the truthiness test of the
  code, as every record does.  The cookie is not looked at then.  When the header is
  absent or empty, or does not parse, or parses to a value that is not truthy, the reader
  returns what the cookie \<open>auth\<close> parses to, and null when there is no such cookie.
  \<open>getAuthTokenFromHeader\<close> trims the header and strips the scheme: for \<open>Bearer\<close> or
  \<open>Token\<close> in any case, then blanks and a token, with blanks around the whole, it returns
  the token; for a token alone that matches neither scheme, that token.
\<close>

theorem header_over_cookie:
  "(\<forall>h r. authorization req = Some h \<and>
       parseAuthInfo JSON_parse (Some (getAuthTokenFromHeader h)) = Some r \<and> truthy r \<longrightarrow>
       getAuthInfoFromCookie JSON_parse truthy req = Some r) \<and>
   (authorization req = None \<or> authorization req = Some [] \<or>
    (\<exists>h. authorization req = Some h \<and>
       (case parseAuthInfo JSON_parse (Some (getAuthTokenFromHeader h)) of
          None \<Rightarrow> True | Some r \<Rightarrow> \<not> truthy r)) \<longrightarrow>
      getAuthInfoFromCookie JSON_parse truthy req =
        (case auth_cookie req of None \<Rightarrow> None | Some v \<Rightarrow> parseAuthInfo JSON_parse (Some v)) \<and>
      (auth_cookie req = None \<longrightarrow> getAuthInfoFromCookie JSON_parse truthy req = None)) \<and>
   (\<forall>sch kw k t a b.
       map ascii_lower sch = kw \<and> (kw = ''bearer'' \<or> kw = ''token'') \<and> 0 < k \<and> header_token t \<longrightarrow>
       getAuthTokenFromHeader
         (replicate a (CHR '' '') @ (sch @ replicate k (CHR '' '') @ t) @ replicate b (CHR '' '')) = t) \<and>
   (\<forall>t a b.
       header_token t \<and> scheme_match ''bearer'' t = None \<and> scheme_match ''token'' t = None \<longrightarrow>
       getAuthTokenFromHeader (replicate a (CHR '' '') @ t @ replicate b (CHR '' '')) = t)"
proof -
  have header: "\<forall>h r. authorization req = Some h \<and>
       parseAuthInfo JSON_parse (Some (getAuthTokenFromHeader h)) = Some r \<and> truthy r \<longrightarrow>
       getAuthInfoFromCookie JSON_parse truthy req = Some r"
  proof (intro allI impI)
    fix h r
    assume a: "authorization req = Some h \<and>
       parseAuthInfo JSON_parse (Some (getAuthTokenFromHeader h)) = Some r \<and> truthy r"
    have "getAuthTokenFromHeader [] = []"
      by (simp add: getAuthTokenFromHeader_def trim_def)
    then have "parseAuthInfo JSON_parse (Some (getAuthTokenFromHeader [])) = None"
      by (simp add: parseAuthInfo_def)
    with a have "h \<noteq> []" by auto
    with a show "getAuthInfoFromCookie JSON_parse truthy req = Some r"
      by (simp add: getAuthInfoFromCookie_def)
  qed
  have cookie: "authorization req = None \<or> authorization req = Some [] \<or>
    (\<exists>h. authorization req = Some h \<and>
       (case parseAuthInfo JSON_parse (Some (getAuthTokenFromHeader h)) of
          None \<Rightarrow> True | Some r \<Rightarrow> \<not> truthy r)) \<longrightarrow>
      getAuthInfoFromCookie JSON_parse truthy req =
        (case auth_cookie req of None \<Rightarrow> None | Some v \<Rightarrow> parseAuthInfo JSON_parse (Some v)) \<and>
      (auth_cookie req = None \<longrightarrow> getAuthInfoFromCookie JSON_parse truthy req = None)"
    by (auto simp: getAuthInfoFromCookie_def split: option.splits)
  have scheme: "\<forall>sch kw k t a b.
       map ascii_lower sch = kw \<and> (kw = ''bearer'' \<or> kw = ''token'') \<and> 0 < k \<and> header_token t \<longrightarrow>
       getAuthTokenFromHeader
         (replicate a (CHR '' '') @ (sch @ replicate k (CHR '' '') @ t) @ replicate b (CHR '' '')) = t"
  proof (intro allI impI)
    fix sch kw t and k a b :: nat
    assume h: "map ascii_lower sch = kw \<and> (kw = ''bearer'' \<or> kw = ''token'') \<and> 0 < k \<and>
      header_token t"
    show "getAuthTokenFromHeader
         (replicate a (CHR '' '') @ (sch @ replicate k (CHR '' '') @ t) @ replicate b (CHR '' '')) = t"
    proof (rule header_stripped)
      show "map ascii_lower sch = kw" using h by (rule conjunct1)
      show "kw = ''bearer'' \<or> kw = ''token''" using h by blast
      show "0 < k" using h by blast
      show "header_token t" using h by blast
    qed
  qed
  have bare: "\<forall>t a b.
       header_token t \<and> scheme_match ''bearer'' t = None \<and> scheme_match ''token'' t = None \<longrightarrow>
       getAuthTokenFromHeader (replicate a (CHR '' '') @ t @ replicate b (CHR '' '')) = t"
  proof (intro allI impI)
    fix t and a b :: nat
    assume h: "header_token t \<and> scheme_match ''bearer'' t = None \<and> scheme_match ''token'' t = None"
    then have ht: "header_token t" by simp
    note tf = header_token_facts [OF ht]
    have "trim (replicate a (CHR '' '') @ t @ replicate b (CHR '' '')) = t"
      by (rule trim_padded [OF tf(2) tf(1) tf(4) tf(5)])
    then show "getAuthTokenFromHeader (replicate a (CHR '' '') @ t @ replicate b (CHR '' '')) = t"
      using h tf(1) by (simp add: getAuthTokenFromHeader_def)
  qed
  show ?thesis
    by (rule conjI [OF header conjI [OF cookie conjI [OF scheme bare]]])
qed


text \<open>
  A header \<open>bEaReR\<close> with a percent-encoded session wins over the cookie of another
  session; a header that holds no JSON text, and one that holds the number \<open>0\<close>, give way
  to the cookie; without a cookie the reader returns null.
\<close>

theorem header_over_cookie_witness:
  "getAuthInfoFromCookie sample_parse sample_truthy bearer_request = Some guest_json \<and>
   getAuthInfoFromCookie sample_parse sample_truthy opaque_header_request = Some guest_json \<and>
   getAuthInfoFromCookie sample_parse sample_truthy zero_header_request = Some guest_json \<and>
   getAuthInfoFromCookie sample_parse sample_truthy (opaque_header_request\<lparr>auth_cookie := None\<rparr>)
     = None \<and>
   getAuthTokenFromHeader '' c2VjcmV0  '' = ''c2VjcmV0''"
proof -
  let ?t = "encodeURIComponent guest_json"
  let ?nocookie = "opaque_header_request\<lparr>auth_cookie := None\<rparr>"
  note T = header_over_cookie [of bearer_request sample_parse sample_truthy]
  note U = header_over_cookie [of opaque_header_request sample_parse sample_truthy]
  note V = header_over_cookie [of ?nocookie sample_parse sample_truthy]
  note W = header_over_cookie [of zero_header_request sample_parse sample_truthy]
  note header = T [THEN conjunct1, rule_format]
  note scheme = T [THEN conjunct2, THEN conjunct2, THEN conjunct1, rule_format]
  note bare = T [THEN conjunct2, THEN conjunct2, THEN conjunct2, rule_format]
  have enc: "?t = ''%7B%22username%22%3A%22guest%22%7D''" by code_simp
  have k1: "map ascii_lower ''bEaReR'' = ''bearer''" by code_simp
  have k2: "header_token ?t" by (simp add: enc header_token_def is_space_single)
  have "getAuthTokenFromHeader
      (replicate 2 (CHR '' '') @ (''bEaReR'' @ replicate 2 (CHR '' '') @ ?t) @ replicate 1 (CHR '' ''))
      = ?t"
    by (rule scheme [where kw = "''bearer''"]) (use k1 k2 in simp)
  then have a0: "getAuthTokenFromHeader (''  bEaReR  '' @ ?t @ '' '') = ?t"
    by (simp add: numeral_2_eq_2)
  have a1: "authorization bearer_request = Some (''  bEaReR  '' @ ?t @ '' '')"
    by (simp add: bearer_request_def)
  have a3: "parseAuthInfo sample_parse (Some ?t) = Some guest_json" by code_simp
  have a4: "sample_truthy guest_json" by code_simp
  have r1: "getAuthInfoFromCookie sample_parse sample_truthy bearer_request = Some guest_json"
    by (rule header [where h = "''  bEaReR  '' @ ?t @ '' ''"]) (simp only: a0 a1 a3 a4 simp_thms)
  have k3: "map ascii_lower ''Bearer'' = ''bearer''" by code_simp
  have k4: "header_token ''c2VjcmV0''" by (simp add: header_token_def is_space_single)
  have "getAuthTokenFromHeader
      (replicate 0 (CHR '' '') @ (''Bearer'' @ replicate 1 (CHR '' '') @ ''c2VjcmV0'') @
       replicate 0 (CHR '' '')) = ''c2VjcmV0''"
    by (rule scheme [where kw = "''bearer''"]) (use k3 k4 in simp)
  then have b0: "getAuthTokenFromHeader ''Bearer c2VjcmV0'' = ''c2VjcmV0''" by simp
  have b1: "authorization opaque_header_request = Some ''Bearer c2VjcmV0''"
    by (simp add: opaque_header_request_def)
  have b2: "parseAuthInfo sample_parse (Some ''c2VjcmV0'') = None" by code_simp
  have b3: "(case auth_cookie opaque_header_request of None \<Rightarrow> None
      | Some v \<Rightarrow> parseAuthInfo sample_parse (Some v)) = Some guest_json"
    by (simp add: opaque_header_request_def a3)
  have b4: "\<exists>h. authorization opaque_header_request = Some h \<and>
      (case parseAuthInfo sample_parse (Some (getAuthTokenFromHeader h)) of
         None \<Rightarrow> True | Some r \<Rightarrow> \<not> sample_truthy r)"
    by (simp add: b0 b1 b2)
  have r2: "getAuthInfoFromCookie sample_parse sample_truthy opaque_header_request
      = Some guest_json"
    using U [THEN conjunct2, THEN conjunct1] b4 b3 by (simp only: simp_thms)
  have k5: "map ascii_lower ''Token'' = ''token''" by code_simp
  have k6: "header_token ''0''" by (simp add: header_token_def is_space_single)
  have "getAuthTokenFromHeader
      (replicate 0 (CHR '' '') @ (''Token'' @ replicate 1 (CHR '' '') @ ''0'') @
       replicate 0 (CHR '' '')) = ''0''"
    by (rule scheme [where kw = "''token''"]) (use k5 k6 in simp)
  then have z0: "getAuthTokenFromHeader ''Token 0'' = ''0''" by simp
  have z1: "authorization zero_header_request = Some ''Token 0''"
    by (simp add: zero_header_request_def)
  have z2: "parseAuthInfo sample_parse (Some ''0'') = Some ''0''" by code_simp
  have z3: "\<not> sample_truthy ''0''" by code_simp
  have z4: "(case auth_cookie zero_header_request of None \<Rightarrow> None
      | Some v \<Rightarrow> parseAuthInfo sample_parse (Some v)) = Some guest_json"
    by (simp add: zero_header_request_def a3)
  have z5: "\<exists>h. authorization zero_header_request = Some h \<and>
      (case parseAuthInfo sample_parse (Some (getAuthTokenFromHeader h)) of
         None \<Rightarrow> True | Some r \<Rightarrow> \<not> sample_truthy r)"
    by (simp add: z0 z1 z2 z3)
  have r3: "getAuthInfoFromCookie sample_parse sample_truthy zero_header_request
      = Some guest_json"
    using W [THEN conjunct2, THEN conjunct1] z5 z4 by (simp only: simp_thms)
  have c1: "authorization ?nocookie = Some ''Bearer c2VjcmV0''"
    by (simp add: opaque_header_request_def)
  have c2: "auth_cookie ?nocookie = None" by simp
  have c3: "\<exists>h. authorization ?nocookie = Some h \<and>
      (case parseAuthInfo sample_parse (Some (getAuthTokenFromHeader h)) of
         None \<Rightarrow> True | Some r \<Rightarrow> \<not> sample_truthy r)"
    by (simp add: b0 c1 b2)
  have r4: "getAuthInfoFromCookie sample_parse sample_truthy ?nocookie = None"
    using V [THEN conjunct2, THEN conjunct1] c3 c2 by (simp only: simp_thms option.case)
  have n1: "scheme_match ''bearer'' ''c2VjcmV0'' = None" by code_simp
  have n2: "scheme_match ''token'' ''c2VjcmV0'' = None" by code_simp
  have "getAuthTokenFromHeader
      (replicate 1 (CHR '' '') @ ''c2VjcmV0'' @ replicate 2 (CHR '' '')) = ''c2VjcmV0''"
    by (rule bare) (simp add: k4 n1 n2)
  then have r5: "getAuthTokenFromHeader '' c2VjcmV0  '' = ''c2VjcmV0''"
    by (simp add: numeral_2_eq_2)
  from r1 r2 r3 r4 r5 show ?thesis by (intro conjI)
qed

end
